theory Spec2Isabelle
  imports Complex_Main "HOL-Library.Log_Nat"
begin

section \<open>Movie budget and revenue analysis: the script as a pipeline of table functions\<close>

text \<open>
  The program is one Python script, \<^verbatim>\<open>main.py\<close>, that drives pandas, numpy and
  scikit-learn. Each statement of the script is one definition below, under the name the
  script gives the value, and each library call is written out as the function the
  library computes.

  A data frame is the list of its rows in table order; the default integer index of
  \<^verbatim>\<open>read_csv\<close> labels a row with its position, so a label is a position in the list.
  Whatever the script raises is a value \<open>Inl e\<close>; whatever it warns about is listed
  beside the result.

  Modelled are the Cleaner (steps 2 and 3), the overview (step 4), the profit column
  (step 5), the bottom quartile (step 6), the extremes (step 8), the cutoff filter
  (step 11) and the regression (step 13). The plot and the listings of steps 9, 10 and 12
  only print; they change no table that a later step reads.
\<close>

subsection \<open>Values of a float column\<close>

text \<open>
  A binary64 value is a finite number, NaN or one of the two infinities. A finite value is
  represented by the rational number it denotes (the sign of zero is not kept).

  The steps after the Cleaner are modelled on tables whose three currency columns hold no
  infinity: a value of such a column is a \<open>pyfloat\<close>, a finite number or NaN. What the
  Cleaner produces, the profit and the predictions are binary64 values in full, a
  \<open>float64\<close>.

  The conversion of the Cleaner, the subtraction of step 5 and the prediction of step 13
  round as binary64 does. The other arithmetic of the model, which is the interpolation of
  the quantile, the means of the overview and the percentage of step 6, is arithmetic on
  the rationals, without rounding.
\<close>

datatype pyfloat = Fin rat | NaN

datatype float64 = Val pyfloat | PInf | NInf

datatype error = ValueError | KeyError

datatype np_warning = RuntimeWarning

definition no_inf :: "float64 \<Rightarrow> pyfloat option" where
  "no_inf x = (case x of Val v \<Rightarrow> Some v | PInf \<Rightarrow> None | NInf \<Rightarrow> None)"

text \<open>IEEE comparisons: every comparison with NaN is false.\<close>

fun fle :: "pyfloat \<Rightarrow> pyfloat \<Rightarrow> bool" where
  "fle (Fin a) (Fin b) = (a \<le> b)"
| "fle _ _ = False"

fun feq :: "pyfloat \<Rightarrow> pyfloat \<Rightarrow> bool" where
  "feq (Fin a) (Fin b) = (a = b)"
| "feq _ _ = False"

definition lt64 :: "float64 \<Rightarrow> float64 \<Rightarrow> bool" where
  "lt64 x y =
     (case x of
        Val NaN \<Rightarrow> False
      | Val (Fin a) \<Rightarrow>
          (case y of Val NaN \<Rightarrow> False | Val (Fin b) \<Rightarrow> a < b | PInf \<Rightarrow> True | NInf \<Rightarrow> False)
      | PInf \<Rightarrow> False
      | NInf \<Rightarrow> (case y of Val NaN \<Rightarrow> False | Val (Fin b) \<Rightarrow> True | PInf \<Rightarrow> True | NInf \<Rightarrow> False))"

definition gt64 :: "float64 \<Rightarrow> float64 \<Rightarrow> bool" where
  "gt64 x y = lt64 y x"

definition le64 :: "float64 \<Rightarrow> float64 \<Rightarrow> bool" where
  "le64 x y = (x \<noteq> Val NaN \<and> y \<noteq> Val NaN \<and> \<not> lt64 y x)"

subsection \<open>Rounding to binary64\<close>

text \<open>
  Every binary64 operation returns the exact result rounded to the nearest binary64 value,
  ties to the even significand. For a positive rational \<open>q\<close> with
  \<open>2^e \<le> q < 2^(e+1)\<close>, the neighbours of \<open>q\<close> are the multiples of \<open>2^(e-52)\<close>;
  below \<open>2^-1022\<close> the step stays \<open>2^-1074\<close> (subnormal numbers). A result of
  \<open>2^1024\<close> or more is the infinity.
\<close>

definition pow2 :: "int \<Rightarrow> rat" where
  "pow2 k = (if 0 \<le> k then 2 ^ nat k else 1 / 2 ^ nat (- k))"

text \<open>The exponent \<open>e\<close> with \<open>2^e \<le> q < 2^(e+1)\<close>, for \<open>q > 0\<close>.\<close>

definition ilog2 :: "rat \<Rightarrow> int" where
  "ilog2 q = (if 1 \<le> q then bitlen \<lfloor>q\<rfloor> - 1 else - bitlen (\<lceil>1 / q\<rceil> - 1))"

definition round_half_even :: "rat \<Rightarrow> int" where
  "round_half_even x =
     (let f = \<lfloor>x\<rfloor>; d = x - of_int f
      in if d < 1 / 2 then f else if 1 / 2 < d then f + 1 else if even f then f else f + 1)"

definition round_mag :: "rat \<Rightarrow> float64" where
  "round_mag q =
     (let e = max (ilog2 q) (- 1022);
          n = round_half_even (q / pow2 (e - 52))
      in if 1023 < e \<or> (e = 1023 \<and> 2 ^ 53 \<le> n) then PInf
         else Val (Fin (of_int n * pow2 (e - 52))))"

definition fneg :: "float64 \<Rightarrow> float64" where
  "fneg x =
     (case x of Val (Fin r) \<Rightarrow> Val (Fin (- r)) | Val NaN \<Rightarrow> Val NaN | PInf \<Rightarrow> NInf | NInf \<Rightarrow> PInf)"

definition round64 :: "rat \<Rightarrow> float64" where
  "round64 q =
     (if q = 0 then Val (Fin 0) else if 0 < q then round_mag q else fneg (round_mag (- q)))"

text \<open>Subtraction, addition and multiplication: NaN propagates, finite results are rounded.\<close>

fun fsub :: "pyfloat \<Rightarrow> pyfloat \<Rightarrow> float64" where
  "fsub (Fin a) (Fin b) = round64 (a - b)"
| "fsub _ _ = Val NaN"

definition fadd64 :: "float64 \<Rightarrow> float64 \<Rightarrow> float64" where
  "fadd64 x y =
     (case x of
        Val NaN \<Rightarrow> Val NaN
      | Val (Fin a) \<Rightarrow>
          (case y of Val NaN \<Rightarrow> Val NaN | Val (Fin b) \<Rightarrow> round64 (a + b) | PInf \<Rightarrow> PInf | NInf \<Rightarrow> NInf)
      | PInf \<Rightarrow> (case y of Val NaN \<Rightarrow> Val NaN | Val (Fin b) \<Rightarrow> PInf | PInf \<Rightarrow> PInf | NInf \<Rightarrow> Val NaN)
      | NInf \<Rightarrow> (case y of Val NaN \<Rightarrow> Val NaN | Val (Fin b) \<Rightarrow> NInf | PInf \<Rightarrow> Val NaN | NInf \<Rightarrow> NInf))"

text \<open>An infinity times \<open>a\<close>: NaN for zero, otherwise the infinity of the sign of \<open>a\<close>.\<close>

definition inf_times :: "rat \<Rightarrow> float64" where
  "inf_times a = (if a = 0 then Val NaN else if 0 < a then PInf else NInf)"

definition fmul64 :: "float64 \<Rightarrow> float64 \<Rightarrow> float64" where
  "fmul64 x y =
     (case x of
        Val NaN \<Rightarrow> Val NaN
      | Val (Fin a) \<Rightarrow>
          (case y of
             Val NaN \<Rightarrow> Val NaN
           | Val (Fin b) \<Rightarrow> round64 (a * b)
           | PInf \<Rightarrow> inf_times a
           | NInf \<Rightarrow> fneg (inf_times a))
      | PInf \<Rightarrow>
          (case y of Val NaN \<Rightarrow> Val NaN | Val (Fin b) \<Rightarrow> inf_times b | PInf \<Rightarrow> PInf | NInf \<Rightarrow> NInf)
      | NInf \<Rightarrow>
          (case y of
             Val NaN \<Rightarrow> Val NaN
           | Val (Fin b) \<Rightarrow> fneg (inf_times b)
           | PInf \<Rightarrow> NInf
           | NInf \<Rightarrow> PInf))"

text \<open>The values of a column that are not NaN, in column order (\<^verbatim>\<open>skipna=True\<close>).\<close>

fun dropna :: "pyfloat list \<Rightarrow> rat list" where
  "dropna [] = []"
| "dropna (Fin a # xs) = a # dropna xs"
| "dropna (NaN # xs) = dropna xs"

subsection \<open>Python's \<^verbatim>\<open>float(str)\<close>\<close>

text \<open>
  \<^verbatim>\<open>astype(float)\<close> on an object column calls \<^verbatim>\<open>float\<close> on every element. On a
  string, \<^verbatim>\<open>float\<close> strips surrounding whitespace and reads
  \<^verbatim>\<open>[sign] (number [exponent] | "inf" | "infinity" | "nan")\<close>, the words in any case,
  where \<^verbatim>\<open>number ::= [digitpart] "." digitpart | digitpart ["."]\<close>,
  \<^verbatim>\<open>exponent ::= ("e" | "E") [sign] digitpart\<close> and
  \<^verbatim>\<open>digitpart ::= digit (["_"] digit)*\<close>. Anything else raises \<^verbatim>\<open>ValueError\<close>.
  The whitespace that is stripped is the space and the characters 9 to 13. The decimal
  number read is rounded to the nearest binary64 value; a number too large for binary64
  is an infinity. Text is ASCII here (a \<open>char\<close> is a byte).
\<close>

definition is_digit :: "char \<Rightarrow> bool" where
  "is_digit c = (c \<in> set ''0123456789'')"

definition digit_val :: "char \<Rightarrow> int" where
  "digit_val c = of_char c - 48"

definition is_space :: "char \<Rightarrow> bool" where
  "is_space c = (c \<in> {CHR '' '', CHR 0x09, CHR 0x0A, CHR 0x0B, CHR 0x0C, CHR 0x0D})"

definition strip :: "string \<Rightarrow> string" where
  "strip s = rev (dropWhile is_space (rev (dropWhile is_space s)))"

definition lower :: "char \<Rightarrow> char" where
  "lower c = (let n = (of_char c :: nat) in if 65 \<le> n \<and> n \<le> 90 then char_of (n + 32) else c)"

fun take_sign :: "string \<Rightarrow> rat \<times> string" where
  "take_sign [] = (1, [])"
| "take_sign (c # cs) =
     (if c = CHR ''-'' then (- 1, cs) else if c = CHR ''+'' then (1, cs) else (1, c # cs))"

fun digitpart :: "string \<Rightarrow> bool" where
  "digitpart [] = False"
| "digitpart [c] = is_digit c"
| "digitpart (c # d # cs) =
     (is_digit c \<and> (if d = CHR ''_'' then digitpart cs else digitpart (d # cs)))"

definition digits_val :: "string \<Rightarrow> int" where
  "digits_val s = foldl (\<lambda>a c. 10 * a + digit_val c) 0 (filter is_digit s)"

text \<open>\<open>number\<close>: the value of the mantissa, or \<open>None\<close> when it is not one.\<close>

definition number :: "string \<Rightarrow> rat option" where
  "number m =
     (let ip = takeWhile (\<lambda>c. c \<noteq> CHR ''.'') m;
          rest = dropWhile (\<lambda>c. c \<noteq> CHR ''.'') m
      in case rest of
           [] \<Rightarrow> if digitpart ip then Some (of_int (digits_val ip)) else None
         | _ # fp \<Rightarrow>
             if (ip = [] \<or> digitpart ip) \<and> (fp = [] \<or> digitpart fp) \<and> \<not> (ip = [] \<and> fp = [])
             then Some (of_int (digits_val ip)
                        + of_int (digits_val fp) / 10 ^ length (filter is_digit fp))
             else None)"

text \<open>\<open>exponent\<close>: the text after \<^verbatim>\<open>e\<close> or \<^verbatim>\<open>E\<close>, as a power of ten.\<close>

definition exponent :: "string \<Rightarrow> rat option" where
  "exponent ex =
     (let (sg, ds) = take_sign ex
      in if digitpart ds
         then Some (if sg < 0 then 1 / 10 ^ nat (digits_val ds) else 10 ^ nat (digits_val ds))
         else None)"

definition is_e :: "char \<Rightarrow> bool" where
  "is_e c = (c = CHR ''e'' \<or> c = CHR ''E'')"

definition floatnumber :: "string \<Rightarrow> rat option" where
  "floatnumber u =
     (let m = takeWhile (\<lambda>c. \<not> is_e c) u;
          rest = dropWhile (\<lambda>c. \<not> is_e c) u
      in case number m of
           None \<Rightarrow> None
         | Some v \<Rightarrow>
             (case rest of
                [] \<Rightarrow> Some v
              | _ # ex \<Rightarrow> (case exponent ex of None \<Rightarrow> None | Some p \<Rightarrow> Some (v * p))))"

definition py_float :: "string \<Rightarrow> error + float64" where
  "py_float s =
     (let (sg, u) = take_sign (strip s);
          w = map lower u
      in if w = ''nan'' then Inr (Val NaN)
         else if w = ''inf'' \<or> w = ''infinity'' then Inr (if sg < 0 then NInf else PInf)
         else case floatnumber u of
                None \<Rightarrow> Inl ValueError
              | Some v \<Rightarrow> Inr (round64 (sg * v)))"

subsection \<open>The loaded table and the Cleaner\<close>

text \<open>
  An element of an object column of \<^verbatim>\<open>read_csv\<close> is a string, or a float where the
  loader already produced one (NaN for an empty cell; the number itself when the loader
  read the whole column as numeric).
\<close>

datatype cell = Txt string | Num float64

record raw_film =
  raw_Movie_Title :: string
  raw_Release_Date :: "string option"
  raw_USD_Production_Budget :: cell
  raw_USD_Worldwide_Gross :: cell
  raw_USD_Domestic_Gross :: cell

text \<open>
  A cleaned row. A timestamp is its number of nanoseconds since 1970-01-01T00:00;
  \<open>None\<close> is \<^verbatim>\<open>NaT\<close>, the missing timestamp.
\<close>

type_synonym timestamp = "int option"

record 'v film =
  Movie_Title :: string
  Release_Date :: timestamp
  USD_Production_Budget :: 'v
  USD_Worldwide_Gross :: 'v
  USD_Domestic_Gross :: 'v

text \<open>
  \<^verbatim>\<open>.replace({r"[$,]": ""}, regex=True)\<close>: in every string element, every \<^verbatim>\<open>$\<close> and
  every \<^verbatim>\<open>,\<close> is removed; an element that is not a string is left as it is.
\<close>

definition replace_currency :: "cell \<Rightarrow> cell" where
  "replace_currency c =
     (case c of
        Txt s \<Rightarrow> Txt (filter (\<lambda>ch. ch \<noteq> CHR ''$'' \<and> ch \<noteq> CHR '','') s)
      | Num x \<Rightarrow> Num x)"

definition astype_float :: "cell \<Rightarrow> error + float64" where
  "astype_float c = (case c of Txt s \<Rightarrow> py_float s | Num x \<Rightarrow> Inr x)"

definition clean_currency :: "cell \<Rightarrow> error + float64" where
  "clean_currency c = astype_float (replace_currency c)"

text \<open>
  \<^verbatim>\<open>pd.to_datetime(column, dayfirst=False, errors=...)\<close>. The parser pandas applies to
  the strings of the column is a parameter \<open>parse\<close>, \<open>None\<close> where it does not accept the
  string. With \<^verbatim>\<open>errors="raise"\<close> such a string raises; with \<^verbatim>\<open>errors="coerce"\<close>,
  which is what the script passes, it becomes \<^verbatim>\<open>NaT\<close>. An empty cell is \<^verbatim>\<open>NaT\<close>
  in both modes.
\<close>

datatype errors_mode = Raise | Coerce

definition to_datetime1 ::
  "errors_mode \<Rightarrow> (string \<Rightarrow> int option) \<Rightarrow> string option \<Rightarrow> error + timestamp" where
  "to_datetime1 mode parse c =
     (case c of
        None \<Rightarrow> Inr None
      | Some s \<Rightarrow>
          (case parse s of
             Some t \<Rightarrow> Inr (Some t)
           | None \<Rightarrow> (case mode of Raise \<Rightarrow> Inl ValueError | Coerce \<Rightarrow> Inr None)))"

text \<open>A conversion of a whole column stops at the first element that raises.\<close>

fun traverse :: "('a \<Rightarrow> error + 'b) \<Rightarrow> 'a list \<Rightarrow> error + 'b list" where
  "traverse f [] = Inr []"
| "traverse f (x # xs) =
     (case f x of
        Inl e \<Rightarrow> Inl e
      | Inr y \<Rightarrow> (case traverse f xs of Inl e \<Rightarrow> Inl e | Inr ys \<Rightarrow> Inr (y # ys)))"

definition to_datetime ::
  "errors_mode \<Rightarrow> (string \<Rightarrow> int option) \<Rightarrow> string option list \<Rightarrow> error + timestamp list" where
  "to_datetime mode parse col = traverse (to_datetime1 mode parse) col"

text \<open>
  Steps 2 and 3 of the script: the three currency columns are converted in the order of
  \<^verbatim>\<open>currency_cols\<close>, then the date column; the converted columns replace the loaded
  ones, row for row.
\<close>

definition cleaner ::
  "(string \<Rightarrow> int option) \<Rightarrow> raw_film list \<Rightarrow> error + float64 film list" where
  "cleaner parse raw =
     (case traverse clean_currency (map raw_USD_Production_Budget raw) of
        Inl e \<Rightarrow> Inl e
      | Inr b \<Rightarrow>
     (case traverse clean_currency (map raw_USD_Worldwide_Gross raw) of
        Inl e \<Rightarrow> Inl e
      | Inr w \<Rightarrow>
     (case traverse clean_currency (map raw_USD_Domestic_Gross raw) of
        Inl e \<Rightarrow> Inl e
      | Inr d \<Rightarrow>
     (case to_datetime Coerce parse (map raw_Release_Date raw) of
        Inl e \<Rightarrow> Inl e
      | Inr t \<Rightarrow>
          Inr (map (\<lambda>i. \<lparr>Movie_Title = raw_Movie_Title (raw ! i), Release_Date = t ! i,
                          USD_Production_Budget = b ! i, USD_Worldwide_Gross = w ! i,
                          USD_Domestic_Gross = d ! i\<rparr>)
                   [0..<length raw])))))"

text \<open>
  The cleaned table as the later steps see it, when none of its currency values is an
  infinity.
\<close>

definition finite_row :: "float64 film \<Rightarrow> pyfloat film option" where
  "finite_row r =
     (case (no_inf (USD_Production_Budget r), no_inf (USD_Worldwide_Gross r),
            no_inf (USD_Domestic_Gross r)) of
        (Some b, Some w, Some d) \<Rightarrow>
          Some \<lparr>Movie_Title = Movie_Title r, Release_Date = Release_Date r,
                USD_Production_Budget = b, USD_Worldwide_Gross = w, USD_Domestic_Gross = d\<rparr>
      | _ \<Rightarrow> None)"

definition finite_table :: "float64 film list \<Rightarrow> pyfloat film list option" where
  "finite_table rows = those (map finite_row rows)"

subsection \<open>Step 4: the dataset overview\<close>

text \<open>\<^verbatim>\<open>Series.mean()\<close> and \<^verbatim>\<open>Series.min()\<close> skip NaN and are NaN when nothing is left.\<close>

definition mean :: "pyfloat list \<Rightarrow> pyfloat" where
  "mean col =
     (case dropna col of [] \<Rightarrow> NaN | v # vs \<Rightarrow> Fin (sum_list (v # vs) / of_nat (length (v # vs))))"

definition fmin :: "pyfloat list \<Rightarrow> pyfloat" where
  "fmin col = (case dropna col of [] \<Rightarrow> NaN | v # vs \<Rightarrow> Fin (fold min vs v))"

text \<open>
  \<^verbatim>\<open>min()\<close> and \<^verbatim>\<open>max()\<close> of a datetime column skip \<^verbatim>\<open>NaT\<close> and are
  \<^verbatim>\<open>NaT\<close> when nothing is left.
\<close>

definition ts_min :: "timestamp list \<Rightarrow> timestamp" where
  "ts_min col = (case List.map_filter id col of [] \<Rightarrow> None | t # ts \<Rightarrow> Some (fold min ts t))"

definition ts_max :: "timestamp list \<Rightarrow> timestamp" where
  "ts_max col = (case List.map_filter id col of [] \<Rightarrow> None | t # ts \<Rightarrow> Some (fold max ts t))"

text \<open>
  \<^verbatim>\<open>.date()\<close>: the calendar day of a timestamp, as the number of days since
  1970-01-01. On \<^verbatim>\<open>NaT\<close> the method does not raise: pandas defines \<^verbatim>\<open>NaT.date()\<close>
  to be \<^verbatim>\<open>NaT\<close>.
\<close>

definition ts_date :: "timestamp \<Rightarrow> int option" where
  "ts_date t = (case t of None \<Rightarrow> None | Some ns \<Rightarrow> Some (ns div 86400000000000))"

text \<open>The table of the model has the five columns the script names, so that is its width.\<close>

record overview =
  shape :: "nat \<times> nat"
  release_date_range :: "int option \<times> int option"
  avg_budget :: pyfloat
  avg_worldwide_gross :: pyfloat
  min_worldwide_gross :: pyfloat
  min_domestic_gross :: pyfloat

definition dataset_overview :: "pyfloat film list \<Rightarrow> overview" where
  "dataset_overview df =
     \<lparr>shape = (length df, 5),
      release_date_range =
        (ts_date (ts_min (map Release_Date df)), ts_date (ts_max (map Release_Date df))),
      avg_budget = mean (map USD_Production_Budget df),
      avg_worldwide_gross = mean (map USD_Worldwide_Gross df),
      min_worldwide_gross = fmin (map USD_Worldwide_Gross df),
      min_domestic_gross = fmin (map USD_Domestic_Gross df)\<rparr>"

subsection \<open>Step 5: the Profit column\<close>

text \<open>The difference is a binary64 subtraction: it is rounded, and it can overflow.\<close>

record 'v film_p = "'v film" +
  Profit :: float64

definition with_profit :: "pyfloat film \<Rightarrow> pyfloat film_p" where
  "with_profit r =
     \<lparr>Movie_Title = Movie_Title r, Release_Date = Release_Date r,
      USD_Production_Budget = USD_Production_Budget r,
      USD_Worldwide_Gross = USD_Worldwide_Gross r,
      USD_Domestic_Gross = USD_Domestic_Gross r,
      Profit = fsub (USD_Worldwide_Gross r) (USD_Production_Budget r)\<rparr>"

definition add_profit :: "pyfloat film list \<Rightarrow> pyfloat film_p list" where
  "add_profit df = map with_profit df"

subsection \<open>Step 6: the bottom quartile\<close>

text \<open>
  \<^verbatim>\<open>Series.quantile(q)\<close> drops NaN, is NaN when nothing is left, and otherwise is
  numpy's percentile with linear interpolation: on the sorted values, the virtual index is
  \<open>(n - 1) * q\<close>, the two neighbours are its floor and the next position (both the last
  position when the virtual index reaches it), and the result interpolates between them
  with numpy's \<^verbatim>\<open>_lerp\<close>.
\<close>

definition lerp :: "rat \<Rightarrow> rat \<Rightarrow> rat \<Rightarrow> rat" where
  "lerp a b t = (if t \<ge> 1 / 2 then b - (b - a) * (1 - t) else a + (b - a) * t)"

definition quantile :: "rat \<Rightarrow> pyfloat list \<Rightarrow> pyfloat" where
  "quantile q col =
     (let vs = sort (dropna col); n = length vs
      in if n = 0 then NaN
         else
           let virt = (of_nat n - 1) * q;
               above = (virt \<ge> of_nat n - 1);
               prev = (if above then n - 1 else nat \<lfloor>virt\<rfloor>);
               next = (if above then n - 1 else nat \<lfloor>virt\<rfloor> + 1);
               gamma = virt - of_int \<lfloor>virt\<rfloor>
           in Fin (lerp (vs ! prev) (vs ! next) gamma))"

definition q1 :: "pyfloat film_p list \<Rightarrow> pyfloat" where
  "q1 df = quantile (1 / 4) (map USD_Worldwide_Gross df)"

definition bottom_25 :: "pyfloat film_p list \<Rightarrow> pyfloat film_p list" where
  "bottom_25 df = filter (\<lambda>r. fle (USD_Worldwide_Gross r) (q1 df)) df"

text \<open>\<^verbatim>\<open>(bottom_25["Profit"] > 0).sum()\<close> counts the rows where the comparison is true.\<close>

definition profitable_cnt :: "pyfloat film_p list \<Rightarrow> int" where
  "profitable_cnt df =
     int (length (filter (\<lambda>r. gt64 (Profit r) (Val (Fin 0))) (bottom_25 df)))"

definition loss_cnt :: "pyfloat film_p list \<Rightarrow> int" where
  "loss_cnt df = int (length (bottom_25 df)) - profitable_cnt df"

text \<open>
  \<^verbatim>\<open>profitable_cnt\<close> is a numpy integer, so \<^verbatim>\<open>/\<close> is numpy's true division: it does
  not raise on a zero divisor, it warns and yields NaN for \<open>0 / 0\<close>. (A nonzero count
  over zero would be an infinity; both divisions of the script divide a count by the size
  of the table it was counted in, so the dividend is zero whenever the divisor is.)
\<close>

definition np_true_divide :: "int \<Rightarrow> int \<Rightarrow> pyfloat \<times> np_warning list" where
  "np_true_divide a b =
     (if b = 0 then (NaN, [RuntimeWarning]) else (Fin (of_int a / of_int b), []))"

fun fmul :: "pyfloat \<Rightarrow> pyfloat \<Rightarrow> pyfloat" where
  "fmul (Fin a) (Fin b) = Fin (a * b)"
| "fmul _ _ = NaN"

definition pct_profitable :: "pyfloat film_p list \<Rightarrow> pyfloat \<times> np_warning list" where
  "pct_profitable df =
     (let (d, ws) = np_true_divide (profitable_cnt df) (int (length (bottom_25 df)))
      in (fmul d (Fin 100), ws))"

subsection \<open>Step 8: budget and revenue extremes\<close>

text \<open>
  \<^verbatim>\<open>idxmax()\<close> skips NaN and returns the label of the first occurrence of the maximum:
  numpy's \<^verbatim>\<open>argmax\<close> scans the column once and moves to a later position only for a
  strictly greater value. On an empty column it raises \<^verbatim>\<open>ValueError\<close>; on a column of
  NaN only it returns NaN, which \<^verbatim>\<open>df.loc\<close> then rejects with \<^verbatim>\<open>KeyError\<close>.
  \<^verbatim>\<open>idxmin()\<close> is the same with the order reversed.
\<close>

fun argmax_loop :: "pyfloat list \<Rightarrow> nat \<Rightarrow> (nat \<times> rat) option \<Rightarrow> (nat \<times> rat) option" where
  "argmax_loop [] i best = best"
| "argmax_loop (x # xs) i best =
     argmax_loop xs (Suc i)
       (case x of
          NaN \<Rightarrow> best
        | Fin a \<Rightarrow>
            (case best of
               None \<Rightarrow> Some (i, a)
             | Some (j, v) \<Rightarrow> if a > v then Some (i, a) else Some (j, v)))"

fun argmin_loop :: "pyfloat list \<Rightarrow> nat \<Rightarrow> (nat \<times> rat) option \<Rightarrow> (nat \<times> rat) option" where
  "argmin_loop [] i best = best"
| "argmin_loop (x # xs) i best =
     argmin_loop xs (Suc i)
       (case x of
          NaN \<Rightarrow> best
        | Fin a \<Rightarrow>
            (case best of
               None \<Rightarrow> Some (i, a)
             | Some (j, v) \<Rightarrow> if a < v then Some (i, a) else Some (j, v)))"

definition idxmax :: "pyfloat list \<Rightarrow> error + nat" where
  "idxmax col =
     (if col = [] then Inl ValueError
      else case argmax_loop col 0 None of None \<Rightarrow> Inl KeyError | Some (i, v) \<Rightarrow> Inr i)"

definition idxmin :: "pyfloat list \<Rightarrow> error + nat" where
  "idxmin col =
     (if col = [] then Inl ValueError
      else case argmin_loop col 0 None of None \<Rightarrow> Inl KeyError | Some (i, v) \<Rightarrow> Inr i)"

definition loc :: "'a list \<Rightarrow> nat \<Rightarrow> error + 'a" where
  "loc df i = (if i < length df then Inr (df ! i) else Inl KeyError)"

definition max_budget_row :: "pyfloat film_p list \<Rightarrow> error + pyfloat film_p" where
  "max_budget_row df =
     (case idxmax (map USD_Production_Budget df) of Inl e \<Rightarrow> Inl e | Inr i \<Rightarrow> loc df i)"

definition max_gross_row :: "pyfloat film_p list \<Rightarrow> error + pyfloat film_p" where
  "max_gross_row df =
     (case idxmax (map USD_Worldwide_Gross df) of Inl e \<Rightarrow> Inl e | Inr i \<Rightarrow> loc df i)"

definition min_budget_row :: "pyfloat film_p list \<Rightarrow> error + pyfloat film_p" where
  "min_budget_row df =
     (case idxmin (map USD_Production_Budget df) of Inl e \<Rightarrow> Inl e | Inr i \<Rightarrow> loc df i)"

subsection \<open>Step 11: the release cutoff\<close>

text \<open>
  \<^verbatim>\<open>pd.Timestamp("2018-05-01")\<close> is midnight of the 17652nd day after 1970-01-01.
  A comparison of timestamps is false when either side is \<^verbatim>\<open>NaT\<close>.
\<close>

definition cutoff :: timestamp where
  "cutoff = Some 1525132800000000000"

fun ts_le :: "timestamp \<Rightarrow> timestamp \<Rightarrow> bool" where
  "ts_le (Some a) (Some b) = (a \<le> b)"
| "ts_le _ _ = False"

fun ts_gt :: "timestamp \<Rightarrow> timestamp \<Rightarrow> bool" where
  "ts_gt (Some a) (Some b) = (a > b)"
| "ts_gt _ _ = False"

definition data_clean :: "pyfloat film_p list \<Rightarrow> pyfloat film_p list" where
  "data_clean df = filter (\<lambda>r. ts_le (Release_Date r) cutoff) df"

definition unreleased :: "pyfloat film_p list \<Rightarrow> pyfloat film_p list" where
  "unreleased df = filter (\<lambda>r. ts_gt (Release_Date r) cutoff) df"

subsection \<open>Step 13: the regression\<close>

text \<open>
  \<^verbatim>\<open>LinearRegression().fit(X, y)\<close> with one feature. scikit-learn rejects an empty
  sample and any NaN with \<^verbatim>\<open>ValueError\<close>; otherwise it centres both columns and hands
  them to a least-squares routine that works in binary64. What that routine returns for a
  sample, the slope and the intercept or an error, is not modelled: it is the parameter
  \<open>solve\<close>.

  \<^verbatim>\<open>predict\<close> evaluates \<^verbatim>\<open>X @ coef_ + intercept_\<close> in binary64; for one row
  of one feature that is one product, rounded, then one sum, rounded. Any other shape
  raises.
\<close>

type_synonym least_squares = "(rat \<times> rat) list \<Rightarrow> error + float64 \<times> float64"

record linear_model =
  coef :: "float64 list"
  intercept :: float64

fun finite_pairs :: "(pyfloat \<times> pyfloat) list \<Rightarrow> (rat \<times> rat) list option" where
  "finite_pairs [] = Some []"
| "finite_pairs ((Fin x, Fin y) # ps) =
     (case finite_pairs ps of None \<Rightarrow> None | Some qs \<Rightarrow> Some ((x, y) # qs))"
| "finite_pairs (_ # ps) = None"

definition fit :: "least_squares \<Rightarrow> (pyfloat \<times> pyfloat) list \<Rightarrow> error + linear_model" where
  "fit solve samples =
     (case finite_pairs samples of
        None \<Rightarrow> Inl ValueError
      | Some [] \<Rightarrow> Inl ValueError
      | Some ps \<Rightarrow>
          (case solve ps of
             Inl e \<Rightarrow> Inl e
           | Inr (c, i) \<Rightarrow> Inr \<lparr>coef = [c], intercept = i\<rparr>))"

definition predict :: "linear_model \<Rightarrow> float64 list \<Rightarrow> error + float64" where
  "predict m x =
     (case (x, coef m) of
        ([x1], [c1]) \<Rightarrow> Inr (fadd64 (fmul64 x1 c1) (intercept m))
      | _ \<Rightarrow> Inl ValueError)"

record regression_report =
  theta_0 :: float64
  theta_1 :: float64
  predictions :: "(rat \<times> float64) list"

definition regression :: "least_squares \<Rightarrow> pyfloat film_p list \<Rightarrow> error + regression_report" where
  "regression solve df =
     (let dc = data_clean df
      in case fit solve (map (\<lambda>r. (USD_Production_Budget r, USD_Worldwide_Gross r)) dc) of
           Inl e \<Rightarrow> Inl e
         | Inr model \<Rightarrow>
             (case traverse (\<lambda>budget. predict model [Val (Fin budget)])
                     [150000000, 350000000] of
                Inl e \<Rightarrow> Inl e
              | Inr preds \<Rightarrow>
                  Inr \<lparr>theta_0 = intercept model,
                       theta_1 = coef model ! 0,
                       predictions = zip [150000000, 350000000] preds\<rparr>))"

subsection \<open>Notions the properties are stated with\<close>

text \<open>
  Currency text: decimal digits, \<^verbatim>\<open>$\<close> and \<^verbatim>\<open>,\<close> only, with at least one digit,
  as in \<^verbatim>\<open>$1,234,567\<close>.
\<close>

definition currency_text :: "string \<Rightarrow> bool" where
  "currency_text s =
     (list_ex is_digit s \<and> list_all (\<lambda>c. is_digit c \<or> c = CHR ''$'' \<or> c = CHR '','') s)"

text \<open>
  The 25th percentile as the specification words it, by linear interpolation between
  closest ranks: on the sorted values, the rank position is \<open>h = (n - 1) * p\<close>, and the
  percentile lies between the values at ranks \<open>\<lfloor>h\<rfloor>\<close> and \<open>\<lceil>h\<rceil>\<close>, at the fraction
  \<open>h - \<lfloor>h\<rfloor>\<close> of the way.
\<close>

definition closest_rank_interpolation :: "rat \<Rightarrow> rat list \<Rightarrow> rat" where
  "closest_rank_interpolation p vs =
     (let s = sort vs;
          h = (of_nat (length s) - 1) * p;
          lo = s ! nat \<lfloor>h\<rfloor>;
          hi = s ! nat \<lceil>h\<rceil>
      in lo + (h - of_int \<lfloor>h\<rfloor>) * (hi - lo))"

text \<open>
  Position \<open>i\<close> holds the maximum \<open>v\<close> of a column at its first occurrence: no value of
  the column exceeds \<open>v\<close> and no earlier value reaches it (NaN is skipped). Likewise for
  the minimum.
\<close>

definition first_max_at :: "pyfloat list \<Rightarrow> nat \<Rightarrow> rat \<Rightarrow> bool" where
  "first_max_at col i v =
     (i < length col \<and> col ! i = Fin v \<and> list_all (\<lambda>u. u \<le> v) (dropna col)
      \<and> list_all (\<lambda>u. u < v) (dropna (take i col)))"

definition first_min_at :: "pyfloat list \<Rightarrow> nat \<Rightarrow> rat \<Rightarrow> bool" where
  "first_min_at col i v =
     (i < length col \<and> col ! i = Fin v \<and> list_all (\<lambda>u. v \<le> u) (dropna col)
      \<and> list_all (\<lambda>u. v < u) (dropna (take i col)))"

text \<open>
  The invariant of the scan in \<^verbatim>\<open>argmax\<close>: after the positions of \<open>ps\<close>, the best
  candidate is the first maximum of \<open>ps\<close>, or there is none because \<open>ps\<close> holds NaN only.
\<close>

definition argmax_inv :: "pyfloat list \<Rightarrow> (nat \<times> rat) option \<Rightarrow> bool" where
  "argmax_inv ps best =
     (case best of None \<Rightarrow> dropna ps = [] | Some (j, v) \<Rightarrow> first_max_at ps j v)"

definition argmin_inv :: "pyfloat list \<Rightarrow> (nat \<times> rat) option \<Rightarrow> bool" where
  "argmin_inv ps best =
     (case best of None \<Rightarrow> dropna ps = [] | Some (j, v) \<Rightarrow> first_min_at ps j v)"

text \<open>A binary64 value that is a number and is not negative: not NaN, not below zero.\<close>

definition nonneg64 :: "float64 \<Rightarrow> bool" where
  "nonneg64 x =
     (case x of Val (Fin v) \<Rightarrow> 0 \<le> v | Val NaN \<Rightarrow> False | PInf \<Rightarrow> True | NInf \<Rightarrow> False)"

text \<open>
  Half a unit in the last place at \<open>q\<close>: half the distance between the binary64
  neighbours of \<open>q\<close>.
\<close>

definition half_ulp :: "rat \<Rightarrow> rat" where
  "half_ulp q = (if q = 0 then 0 else pow2 (max (ilog2 \<bar>q\<bar>) (- 1022) - 53))"

text \<open>
  What the Cleaner makes of one currency cell: the cleaned value \<open>x\<close> is the float of the
  cell with \<^verbatim>\<open>$\<close> and \<^verbatim>\<open>,\<close> removed. For currency text it is the number the
  digits spell, rounded to binary64: a number that is not negative (the infinity when the
  digits spell too large a number) and, below \<open>2^53\<close>, the number the digits spell.
\<close>

definition currency_field :: "cell \<Rightarrow> float64 \<Rightarrow> bool" where
  "currency_field c x =
     (clean_currency c = Inr x
      \<and> (case c of
           Txt s \<Rightarrow>
             currency_text s \<longrightarrow>
               x = round64 (of_int (digits_val s)) \<and> nonneg64 x
               \<and> (digits_val s < 2 ^ 53 \<longrightarrow> x = Val (Fin (of_int (digits_val s))))
         | Num y \<Rightarrow> x = y))"

subsection \<open>Sample tables\<close>

text \<open>
  A date parser that accepts two month-first dates, 1 January 2010 and 1 January 2019,
  and nothing else.
\<close>

definition sample_parse :: "string \<Rightarrow> int option" where
  "sample_parse s =
     (if s = ''1/1/2010'' then Some 1262304000000000000
      else if s = ''1/1/2019'' then Some 1546300800000000000
      else None)"

text \<open>A film whose date is not a date, as loaded, as cleaned, and as the later steps see it.\<close>

definition raw_undated :: raw_film where
  "raw_undated =
     \<lparr>raw_Movie_Title = ''Undated'', raw_Release_Date = Some ''soon'',
      raw_USD_Production_Budget = Txt ''$100'', raw_USD_Worldwide_Gross = Txt ''$250'',
      raw_USD_Domestic_Gross = Txt ''$50''\<rparr>"

definition undated_cleaned :: "float64 film" where
  "undated_cleaned =
     \<lparr>Movie_Title = ''Undated'', Release_Date = None,
      USD_Production_Budget = Val (Fin 100), USD_Worldwide_Gross = Val (Fin 250),
      USD_Domestic_Gross = Val (Fin 50)\<rparr>"

definition undated_film :: "pyfloat film" where
  "undated_film =
     \<lparr>Movie_Title = ''Undated'', Release_Date = None, USD_Production_Budget = Fin 100,
      USD_Worldwide_Gross = Fin 250, USD_Domestic_Gross = Fin 50\<rparr>"

text \<open>A film with a negative budget and an empty worldwide gross cell.\<close>

definition raw_refund :: raw_film where
  "raw_refund =
     \<lparr>raw_Movie_Title = ''Refund'', raw_Release_Date = Some ''1/1/2010'',
      raw_USD_Production_Budget = Txt ''-$5'', raw_USD_Worldwide_Gross = Num (Val NaN),
      raw_USD_Domestic_Gross = Txt ''$1,000''\<rparr>"

definition refund_cleaned :: "float64 film" where
  "refund_cleaned =
     \<lparr>Movie_Title = ''Refund'', Release_Date = Some 1262304000000000000,
      USD_Production_Budget = Val (Fin (- 5)), USD_Worldwide_Gross = Val NaN,
      USD_Domestic_Gross = Val (Fin 1000)\<rparr>"

text \<open>
  A film with a budget of ten cents and a worldwide gross of a million dollars. The
  binary64 value of \<^verbatim>\<open>0.1\<close> is \<open>3602879701896397 / 2^55\<close>.
\<close>

definition raw_dime :: raw_film where
  "raw_dime =
     \<lparr>raw_Movie_Title = ''Dime'', raw_Release_Date = Some ''1/1/2010'',
      raw_USD_Production_Budget = Txt ''$0.1'', raw_USD_Worldwide_Gross = Txt ''$1,000,000'',
      raw_USD_Domestic_Gross = Txt ''$0''\<rparr>"

definition dime_cleaned :: "float64 film" where
  "dime_cleaned =
     \<lparr>Movie_Title = ''Dime'', Release_Date = Some 1262304000000000000,
      USD_Production_Budget = Val (Fin (3602879701896397 / 36028797018963968)),
      USD_Worldwide_Gross = Val (Fin 1000000), USD_Domestic_Gross = Val (Fin 0)\<rparr>"

definition dime_film :: "pyfloat film" where
  "dime_film =
     \<lparr>Movie_Title = ''Dime'', Release_Date = Some 1262304000000000000,
      USD_Production_Budget = Fin (3602879701896397 / 36028797018963968),
      USD_Worldwide_Gross = Fin 1000000, USD_Domestic_Gross = Fin 0\<rparr>"

definition sample_film :: "string \<Rightarrow> timestamp \<Rightarrow> pyfloat \<Rightarrow> pyfloat \<Rightarrow> pyfloat film_p" where
  "sample_film title date budget gross =
     \<lparr>Movie_Title = title, Release_Date = date, USD_Production_Budget = budget,
      USD_Worldwide_Gross = gross, USD_Domestic_Gross = Fin 0,
      Profit = fsub gross budget\<rparr>"

text \<open>
  Six films: B has no date and C is released after the cutoff; the budgets tie at the top
  (B, C) and at the bottom (A, D), the grosses tie at the top (C, E); D breaks even.
\<close>

definition sample_table :: "pyfloat film_p list" where
  "sample_table =
     [sample_film ''A'' (Some 1262304000000000000) (Fin 10) (Fin 30),
      sample_film ''B'' None (Fin 40) (Fin 20),
      sample_film ''C'' (Some 1546300800000000000) (Fin 40) (Fin 90),
      sample_film ''D'' (Some 1262304000000000000) (Fin 10) (Fin 10),
      sample_film ''E'' (Some 1262304000000000000) (Fin 20) (Fin 90),
      sample_film ''F'' (Some 1262304000000000000) (Fin 15) (Fin 18)]"


text \<open>Five films, the first with an empty budget cell; the two lowest grosses are 10 and 20.\<close>

definition no_budget_table :: "pyfloat film_p list" where
  "no_budget_table =
     [sample_film ''P'' (Some 1262304000000000000) NaN (Fin 10),
      sample_film ''Q'' (Some 1262304000000000000) (Fin 5) (Fin 20),
      sample_film ''R'' (Some 1262304000000000000) (Fin 5) (Fin 30),
      sample_film ''S'' (Some 1262304000000000000) (Fin 5) (Fin 40),
      sample_film ''T'' (Some 1262304000000000000) (Fin 5) (Fin 50)]"

section \<open>Properties\<close>

subsection \<open>Auxiliary facts\<close>

lemma traverse_Inr_iff: "traverse f xs = Inr ys \<longleftrightarrow> map f xs = map Inr ys"
proof (induction xs arbitrary: ys)
  case Nil
  then show ?case by auto
next
  case (Cons x xs)
  show ?case
  proof (cases "f x")
    case (Inl e)
    then show ?thesis by (cases ys) auto
  next
    case (Inr y)
    show ?thesis
    proof (cases "traverse f xs")
      case (Inl e)
      have "map f xs \<noteq> map Inr zs" for zs using Cons.IH [of zs] Inl by simp
      with Inr Inl show ?thesis by (cases ys) auto
    next
      case r: (Inr zs)
      then have "map f xs = map Inr zs" using Cons.IH by simp
      with Inr r show ?thesis by (cases ys) (auto simp: inj_map_eq_map)
    qed
  qed
qed

lemma traverse_InrD:
  assumes "traverse f xs = Inr ys"
  shows "length ys = length xs" and "i < length xs \<Longrightarrow> f (xs ! i) = Inr (ys ! i)"
proof -
  from assms have m: "map f xs = map Inr ys" by (simp add: traverse_Inr_iff)
  then show l: "length ys = length xs" by (metis length_map)
  show "f (xs ! i) = Inr (ys ! i)" if "i < length xs"
    using that l nth_map [of i xs f] nth_map [of i ys Inr] m by simp
qed

lemma to_datetime1_coerce:
  "to_datetime1 Coerce parse c = Inr (case c of None \<Rightarrow> None | Some s \<Rightarrow> parse s)"
  by (simp add: to_datetime1_def split: option.splits)

lemma to_datetime_coerce:
  "to_datetime Coerce parse col =
     Inr (map (\<lambda>c. case c of None \<Rightarrow> None | Some s \<Rightarrow> parse s) col)"
  by (simp add: to_datetime_def traverse_Inr_iff to_datetime1_coerce)

lemma ts_le_has_date: "ts_le t c \<Longrightarrow> t \<noteq> None"
  by (cases t) auto

lemma ts_gt_has_date: "ts_gt t c \<Longrightarrow> t \<noteq> None"
  by (cases t) auto

lemma data_clean_skips_NaT:
  "data_clean (filter (\<lambda>r. Release_Date r \<noteq> None) df) = data_clean df"
  unfolding data_clean_def filter_filter
  by (rule filter_cong) (auto dest: ts_le_has_date)

lemma length_filter_not:
  "int (length (filter (\<lambda>x. \<not> P x) xs)) = int (length xs) - int (length (filter P xs))"
  using sum_length_filter_compl [of P xs] by simp

lemma map_filter_id_all_None: "(\<forall>t \<in> set col. t = None) \<Longrightarrow> List.map_filter id col = []"
  by (induction col) (auto simp: List.map_filter_simps)

subsection \<open>Rounding\<close>

lemma pow2_pos: "0 < pow2 k"
  by (simp add: pow2_def)

lemma pow2_half: "pow2 (k - 1) = pow2 k / 2"
proof (cases "1 \<le> k")
  case True
  then have "nat k = Suc (nat (k - 1))" by simp
  with True show ?thesis by (simp add: pow2_def)
next
  case False
  then have "nat (- (k - 1)) = Suc (nat (- k))" by simp
  with False show ?thesis by (simp add: pow2_def)
qed

lemma pow2_diff: "pow2 (k - int n) = pow2 k / 2 ^ n"
proof (induction n)
  case 0
  show ?case by simp
next
  case (Suc n)
  have "pow2 (k - int (Suc n)) = pow2 (k - int n - 1)" by (simp add: algebra_simps)
  also have "\<dots> = pow2 (k - int n) / 2" by (rule pow2_half)
  finally show ?case by (simp add: Suc)
qed

lemma pow2_nonpos: "k \<le> 0 \<Longrightarrow> pow2 k = 1 / 2 ^ nat (- k)"
  by (cases "k = 0") (simp_all add: pow2_def)

lemma round_half_even_of_int: "round_half_even (of_int k) = k"
  by (simp add: round_half_even_def)

lemma round_half_even_nonneg: "0 \<le> x \<Longrightarrow> 0 \<le> round_half_even x"
  by (auto simp: round_half_even_def Let_def)

lemma round_half_even_error: "\<bar>of_int (round_half_even x) - x\<bar> \<le> 1 / 2"
proof -
  have "of_int \<lfloor>x\<rfloor> \<le> x" "x < of_int \<lfloor>x\<rfloor> + 1" by linarith+
  then show ?thesis
    by (auto simp: round_half_even_def Let_def abs_le_iff)
qed

text \<open>A number that is not negative rounds to a number that is not negative.\<close>

lemma round_mag_nonneg: "0 < q \<Longrightarrow> nonneg64 (round_mag q)"
proof -
  assume q: "0 < q"
  have "0 \<le> q / pow2 k" for k using q pow2_pos [of k] by simp
  then have "0 \<le> round_half_even (q / pow2 k)" for k by (rule round_half_even_nonneg)
  then have "0 \<le> of_int (round_half_even (q / pow2 k)) * pow2 k" for k
    using pow2_pos [of k] by simp
  then show ?thesis by (simp add: round_mag_def Let_def nonneg64_def)
qed

lemma round64_nonneg: "0 \<le> q \<Longrightarrow> nonneg64 (round64 q)"
  by (auto simp: round64_def round_mag_nonneg) (simp add: nonneg64_def)

text \<open>A finite result is within half a unit in the last place of the exact value.\<close>

lemma round_mag_error:
  assumes "round_mag q = Val (Fin v)"
  shows "\<bar>v - q\<bar> \<le> pow2 (max (ilog2 q) (- 1022) - 53)"
proof -
  define e where "e = max (ilog2 q) (- 1022)"
  define u where "u = pow2 (e - 52)"
  define n where "n = round_half_even (q / u)"
  have u: "0 < u" by (simp add: u_def pow2_pos)
  from assms have v: "v = of_int n * u"
    by (simp add: round_mag_def Let_def e_def u_def n_def split: if_splits)
  have "v - q = (of_int n - q / u) * u" using u by (simp add: v algebra_simps)
  then have "\<bar>v - q\<bar> = \<bar>of_int n - q / u\<bar> * u" using u by (simp add: abs_mult)
  also have "\<dots> \<le> (1 / 2) * u"
    using round_half_even_error [of "q / u"] u unfolding n_def
    by (intro mult_right_mono) simp_all
  also have "\<dots> = pow2 (e - 53)" using pow2_half [of "e - 52"] by (simp add: u_def)
  finally show ?thesis by (simp add: e_def)
qed

lemma round64_error:
  assumes "round64 q = Val (Fin v)"
  shows "\<bar>v - q\<bar> \<le> half_ulp q"
proof (cases "q = 0")
  case True
  with assms show ?thesis by (simp add: round64_def half_ulp_def)
next
  case False
  show ?thesis
  proof (cases "0 < q")
    case True
    with assms False have "round_mag q = Val (Fin v)" by (simp add: round64_def)
    from round_mag_error [OF this] True False show ?thesis by (simp add: half_ulp_def)
  next
    case neg: False
    with assms False have "fneg (round_mag (- q)) = Val (Fin v)" by (simp add: round64_def)
    then have "round_mag (- q) = Val (Fin (- v))"
      by (auto simp: fneg_def split: float64.splits pyfloat.splits)
    from round_mag_error [OF this] neg False show ?thesis
      by (simp add: half_ulp_def abs_minus_commute)
  qed
qed

text \<open>The exponent is not above the number.\<close>

lemma pow2_ilog2_le:
  assumes "0 < q"
  shows "pow2 (ilog2 q) \<le> q"
proof (cases "1 \<le> q")
  case True
  then have f: "0 < \<lfloor>q\<rfloor>" by simp
  then have "1 \<le> bitlen \<lfloor>q\<rfloor>" using bitlen_ge_iff_power [of 1 "\<lfloor>q\<rfloor>"] by simp
  then have "pow2 (bitlen \<lfloor>q\<rfloor> - 1) = 2 ^ nat (bitlen \<lfloor>q\<rfloor> - 1)" by (simp add: pow2_def)
  also have "\<dots> = of_int (2 ^ nat (bitlen \<lfloor>q\<rfloor> - 1))" by simp
  also have "\<dots> \<le> of_int \<lfloor>q\<rfloor>" using bitlen_bounds [OF f] by (simp only: of_int_le_iff)
  also have "\<dots> \<le> q" by simp
  finally show ?thesis using True by (simp add: ilog2_def)
next
  case False
  with assms have inv: "1 < 1 / q" by simp
  define c where "c = \<lceil>1 / q\<rceil> - 1"
  define b where "b = bitlen c"
  have "1 < \<lceil>1 / q\<rceil>" using inv by (simp add: less_ceiling_iff)
  then have c: "0 < c" by (simp add: c_def)
  have b0: "0 \<le> b" by (simp add: b_def bitlen_nonneg)
  have "c < 2 ^ nat b" using bitlen_bounds [OF c] by (simp add: b_def)
  then have "\<lceil>1 / q\<rceil> \<le> 2 ^ nat b" by (simp add: c_def)
  then have "1 / q \<le> of_int (2 ^ nat b)" by (simp only: ceiling_le_iff)
  then have "1 / q \<le> 2 ^ nat b" by simp
  then have "1 \<le> 2 ^ nat b * q" using assms by (simp add: field_simps)
  then have "1 / 2 ^ nat b \<le> q" by (simp add: field_simps)
  moreover have "pow2 (- b) = 1 / 2 ^ nat b" using b0 pow2_nonpos [of "- b"] by simp
  ultimately show ?thesis using False by (simp add: ilog2_def c_def b_def)
qed

text \<open>
  Half a unit in the last place is at most the fraction \<open>2^-53\<close> of the number, or of
  \<open>2^-1022\<close> for a smaller number.
\<close>

lemma half_ulp_bound: "half_ulp q \<le> max \<bar>q\<bar> (pow2 (- 1022)) / 2 ^ 53"
proof (cases "q = 0")
  case True
  then show ?thesis using pow2_pos [of "- 1022"] by (simp add: half_ulp_def)
next
  case False
  then have q: "0 < \<bar>q\<bar>" by simp
  define e where "e = max (ilog2 \<bar>q\<bar>) (- 1022)"
  have "pow2 e \<le> max \<bar>q\<bar> (pow2 (- 1022))"
    using pow2_ilog2_le [OF q] by (auto simp: e_def max_def)
  then have "pow2 e / 2 ^ 53 \<le> max \<bar>q\<bar> (pow2 (- 1022)) / 2 ^ 53"
    by (simp add: divide_right_mono)
  moreover have "half_ulp q = pow2 e / 2 ^ 53"
    using False pow2_diff [of e 53] by (simp add: half_ulp_def e_def)
  ultimately show ?thesis by simp
qed

text \<open>A whole number below \<open>2^53\<close> in magnitude is a binary64 value: rounding keeps it.\<close>

lemma round_mag_of_int:
  assumes "0 < m" and "m < 2 ^ 53"
  shows "round_mag (of_int m) = Val (Fin (of_int m))"
proof -
  define e where "e = bitlen m - 1"
  have il: "ilog2 (of_int m) = e" using assms(1) by (simp add: ilog2_def e_def)
  have "1 \<le> bitlen m" using assms(1) bitlen_ge_iff_power [of 1 m] by simp
  then have e0: "0 \<le> e" by (simp add: e_def)
  have "bitlen m \<le> 53" using assms(2) by (simp add: bitlen_le_iff_power)
  then have e52: "e \<le> 52" by (simp add: e_def)
  define k where "k = nat (52 - e)"
  have u: "pow2 (e - 52) = 1 / 2 ^ k" using e52 pow2_nonpos [of "e - 52"] by (simp add: k_def)
  have mx: "max e (- 1022) = e" using e0 by simp
  have "(of_int m :: rat) / pow2 (e - 52) = of_int (m * 2 ^ k)" by (simp add: u)
  then have n: "round_half_even (of_int m / pow2 (e - 52)) = m * 2 ^ k"
    by (simp only: round_half_even_of_int)
  have "\<not> (1023 < e \<or> (e = 1023 \<and> (2::int) ^ 53 \<le> m * 2 ^ k))" using e52 by simp
  then show ?thesis
    unfolding round_mag_def Let_def il mx n by (simp add: u)
qed

lemma round64_of_int:
  assumes "\<bar>m\<bar> < 2 ^ 53"
  shows "round64 (of_int m) = Val (Fin (of_int m))"
proof (cases "m = 0")
  case True
  then show ?thesis by (simp add: round64_def)
next
  case False
  show ?thesis
  proof (cases "0 < m")
    case True
    with assms round_mag_of_int [of m] show ?thesis by (simp add: round64_def)
  next
    case neg: False
    with False assms have "0 < - m" "- m < 2 ^ 53" by simp_all
    from round_mag_of_int [OF this] neg False show ?thesis
      by (simp add: round64_def fneg_def)
  qed
qed



subsection \<open>The release cutoff\<close>

text \<open>
  C1, as the script has it. A row whose \<^verbatim>\<open>Release_Date\<close> is missing is not counted as
  unreleased, and it is not in \<^verbatim>\<open>data_clean\<close> either: \<^verbatim>\<open>data_clean\<close> keeps the rows
  whose date is on or before the cutoff, and a comparison with a missing date is false. The
  regression therefore is the same with and without the rows that have no date, whatever
  the least-squares routine.
\<close>

theorem undated_rows_leave_regression_input:
  "(Release_Date r = None \<longrightarrow> r \<notin> set (data_clean df) \<and> r \<notin> set (unreleased df))
   \<and> regression solve (filter (\<lambda>r. Release_Date r \<noteq> None) df) = regression solve df"
proof -
  have "regression solve (filter (\<lambda>r. Release_Date r \<noteq> None) df) = regression solve df"
    by (simp only: regression_def data_clean_skips_NaT)
  moreover have "Release_Date r = None \<longrightarrow> r \<notin> set (data_clean df) \<and> r \<notin> set (unreleased df)"
    by (auto simp: data_clean_def unreleased_def dest: ts_le_has_date ts_gt_has_date)
  ultimately show ?thesis by simp
qed

theorem undated_rows_leave_regression_input_witness:
  "Release_Date (sample_table ! 1) = None
   \<and> sample_table ! 1 \<notin> set (data_clean sample_table)
   \<and> sample_table ! 1 \<notin> set (unreleased sample_table)"
proof -
  have d: "Release_Date (sample_table ! 1) = None"
    by (simp add: sample_table_def sample_film_def)
  from undated_rows_leave_regression_input [of "sample_table ! 1" sample_table] d
  show ?thesis by blast
qed

text \<open>
  The claim as written fails on a table of one film whose date text the parser rejects:
  the Cleaner turns the date into \<^verbatim>\<open>NaT\<close>, and the regression's input is then empty.
\<close>

theorem undated_row_in_regression_input_counterexample:
  "cleaner sample_parse [raw_undated] = Inr [undated_cleaned]
   \<and> finite_table [undated_cleaned] = Some [undated_film]
   \<and> Release_Date undated_film = None
   \<and> data_clean (add_profit [undated_film]) = []"
proof -
  have a: "cleaner sample_parse [raw_undated] = Inr [undated_cleaned]"
    by code_simp
  have b: "finite_table [undated_cleaned] = Some [undated_film]"
    by code_simp
  have c: "Release_Date undated_film = None"
    by (simp add: undated_film_def)
  have d: "data_clean (add_profit [undated_film]) = []"
    by (simp add: data_clean_def add_profit_def with_profit_def c)
  from a b c d show ?thesis by (intro conjI)
qed

subsection \<open>Date coercion\<close>

text \<open>
  C5. With \<^verbatim>\<open>errors="coerce"\<close> the date conversion returns a column for every input
  column and every parser: a string the parser rejects becomes \<^verbatim>\<open>NaT\<close>, the missing
  value, and no input raises. The dates of a table that passed the Cleaner are the
  columns's strings converted in this way.
\<close>

theorem to_datetime_coerce_never_raises:
  "to_datetime Coerce parse col =
     Inr (map (\<lambda>c. case c of None \<Rightarrow> None | Some s \<Rightarrow> parse s) col)
   \<and> (cleaner parse raw = Inr rows \<longrightarrow>
        map Release_Date rows =
          map (\<lambda>r. case raw_Release_Date r of None \<Rightarrow> None | Some s \<Rightarrow> parse s) raw)"
proof -
  have "map Release_Date rows =
          map (\<lambda>r. case raw_Release_Date r of None \<Rightarrow> None | Some s \<Rightarrow> parse s) raw"
    if "cleaner parse raw = Inr rows"
    using that
    by (auto simp: cleaner_def to_datetime_coerce comp_def split: sum.splits
        intro!: nth_equalityI)
  then show ?thesis by (simp add: to_datetime_coerce)
qed

theorem to_datetime_coerce_never_raises_witness:
  "sample_parse ''soon'' = None
   \<and> to_datetime Coerce sample_parse [Some ''soon'', Some ''1/1/2010'', None]
       = Inr [None, Some 1262304000000000000, None]
   \<and> cleaner sample_parse [raw_undated] = Inr [undated_cleaned]
   \<and> map Release_Date [undated_cleaned] = [None]"
proof -
  have c: "cleaner sample_parse [raw_undated] = Inr [undated_cleaned]"
    by code_simp
  show ?thesis
    using to_datetime_coerce_never_raises
      [of sample_parse "[Some ''soon'', Some ''1/1/2010'', None]" "[raw_undated]"
          "[undated_cleaned]"] c
    by (simp add: sample_parse_def raw_undated_def)
qed

subsection \<open>Profit\<close>

lemma fsub_NaN: "fsub NaN x = Val NaN" "fsub x NaN = Val NaN"
  by (cases x; simp)+

text \<open>
  C6, as the script has it. The \<^verbatim>\<open>Profit\<close> column holds, row by row, the binary64
  difference of the worldwide gross and the production budget, and the other columns of the
  cleaned table are unchanged. The binary64 difference is the exact difference rounded to
  the nearest binary64 value: NaN when either side is NaN; when finite, within half a unit
  in the last place of the exact difference, which is at most the fraction \<open>2^-53\<close> of
  it; and the exact difference itself when both sides are whole numbers and the difference
  is below \<open>2^53\<close> in magnitude, as with whole-dollar amounts.
\<close>

theorem profit_is_rounded_difference:
  "map Profit (add_profit df) =
     map (\<lambda>r. fsub (USD_Worldwide_Gross r) (USD_Production_Budget r)) df
   \<and> map film.truncate (add_profit df) = df
   \<and> fsub (Fin w) (Fin b) = round64 (w - b)
   \<and> fsub NaN x = Val NaN \<and> fsub x NaN = Val NaN
   \<and> (fsub (Fin w) (Fin b) = Val (Fin p) \<longrightarrow>
        \<bar>p - (w - b)\<bar> \<le> half_ulp (w - b)
        \<and> half_ulp (w - b) \<le> max \<bar>w - b\<bar> (pow2 (- 1022)) / 2 ^ 53)
   \<and> (\<bar>i - j\<bar> < 2 ^ 53 \<longrightarrow> fsub (Fin (of_int i)) (Fin (of_int j)) = Val (Fin (of_int (i - j))))"
proof -
  have a: "map Profit (add_profit df) =
             map (\<lambda>r. fsub (USD_Worldwide_Gross r) (USD_Production_Budget r)) df"
    by (simp add: add_profit_def with_profit_def comp_def)
  have b: "map film.truncate (add_profit df) = df"
    by (simp add: add_profit_def with_profit_def film_p.defs film.defs comp_def map_idI)
  have c: "\<bar>p - (w - b)\<bar> \<le> half_ulp (w - b)" if "fsub (Fin w) (Fin b) = Val (Fin p)"
    using that round64_error [of "w - b" p] by simp
  have d: "fsub (Fin (of_int i)) (Fin (of_int j)) = Val (Fin (of_int (i - j)))"
    if "\<bar>i - j\<bar> < 2 ^ 53"
    using round64_of_int [OF that] by simp
  from a b c d half_ulp_bound [of "w - b"] fsub_NaN [of x] show ?thesis by simp
qed

theorem profit_is_rounded_difference_witness:
  "map Profit (add_profit [dime_film]) = [Val (Fin (8589933733006541 / 8589934592))]
   \<and> \<bar>8589933733006541 / 8589934592 - (1000000 - 3602879701896397 / 36028797018963968)\<bar>
       \<le> half_ulp (1000000 - 3602879701896397 / 36028797018963968)
   \<and> fsub (Fin 250) (Fin 100) = Val (Fin 150)"
proof -
  have e: "fsub (Fin 1000000) (Fin (3602879701896397 / 36028797018963968))
           = Val (Fin (8589933733006541 / 8589934592))"
    by code_simp
  have p: "map Profit (add_profit [dime_film]) = [Val (Fin (8589933733006541 / 8589934592))]"
    by code_simp
  from profit_is_rounded_difference
    [of df "1000000" "3602879701896397 / 36028797018963968" x
        "8589933733006541 / 8589934592" i j] e
  have h: "\<bar>8589933733006541 / 8589934592 - (1000000 - 3602879701896397 / 36028797018963968)\<bar>
       \<le> half_ulp (1000000 - 3602879701896397 / 36028797018963968)"
    by blast
  from profit_is_rounded_difference [of df w b x p 250 100]
  have "fsub (Fin (of_int 250)) (Fin (of_int 100)) = Val (Fin (of_int (250 - 100)))"
    by simp
  then have i: "fsub (Fin 250) (Fin 100) = Val (Fin 150)" by simp
  from p h i show ?thesis by (intro conjI)
qed

text \<open>
  The claim as written fails on a film with a budget of \<^verbatim>\<open>$0.1\<close> and a worldwide gross
  of \<^verbatim>\<open>$1,000,000\<close>: the profit is the binary64 value of 999999.9, which is not the
  difference of the two fields.
\<close>

theorem profit_not_exact_difference_counterexample:
  "cleaner sample_parse [raw_dime] = Inr [dime_cleaned]
   \<and> finite_table [dime_cleaned] = Some [dime_film]
   \<and> USD_Worldwide_Gross dime_film = Fin 1000000
   \<and> USD_Production_Budget dime_film = Fin (3602879701896397 / 36028797018963968)
   \<and> map Profit (add_profit [dime_film]) = [Val (Fin (8589933733006541 / 8589934592))]
   \<and> (8589933733006541 / 8589934592 :: rat)
       \<noteq> 1000000 - 3602879701896397 / 36028797018963968"
proof -
  have a: "cleaner sample_parse [raw_dime] = Inr [dime_cleaned]"
    by code_simp
  have b: "finite_table [dime_cleaned] = Some [dime_film]"
    by code_simp
  have c: "USD_Worldwide_Gross dime_film = Fin 1000000"
    "USD_Production_Budget dime_film = Fin (3602879701896397 / 36028797018963968)"
    by (simp_all add: dime_film_def)
  have p: "map Profit (add_profit [dime_film]) = [Val (Fin (8589933733006541 / 8589934592))]"
    by code_simp
  have n: "(8589933733006541 / 8589934592 :: rat)
       \<noteq> 1000000 - 3602879701896397 / 36028797018963968"
    by simp
  from a b c p n show ?thesis by (intro conjI)
qed

subsection \<open>The bottom quartile: counts and percentage\<close>

lemma length_filter_disj:
  assumes "\<And>x. x \<in> set xs \<Longrightarrow> \<not> (P x \<and> Q x)"
  shows "length (filter (\<lambda>x. P x \<or> Q x) xs) = length (filter P xs) + length (filter Q xs)"
  using assms by (induction xs) auto

lemma not_gt64_zero:
  "(\<not> gt64 x (Val (Fin 0))) = (le64 x (Val (Fin 0)) \<or> x = Val NaN)"
  "\<not> (le64 x (Val (Fin 0)) \<and> x = Val NaN)"
  by (auto simp: gt64_def le64_def lt64_def split: float64.splits pyfloat.splits)

text \<open>
  C8, as the script has it. For every table, the number of bottom-quartile rows counted as
  profitable (\<open>Profit > 0\<close>) and the number counted as loss-making add up to the size of
  the bottom-quartile subset. The loss count is what is left of the subset: the rows with
  \<open>Profit \<le> 0\<close>, a film that exactly breaks even among them, and the rows whose profit
  is NaN.
\<close>

theorem profitable_plus_loss_is_subset_size:
  "profitable_cnt df + loss_cnt df = int (length (bottom_25 df))
   \<and> profitable_cnt df
       = int (length (filter (\<lambda>r. gt64 (Profit r) (Val (Fin 0))) (bottom_25 df)))
   \<and> loss_cnt df
       = int (length (filter (\<lambda>r. le64 (Profit r) (Val (Fin 0))) (bottom_25 df)))
         + int (length (filter (\<lambda>r. Profit r = Val NaN) (bottom_25 df)))"
proof -
  have "loss_cnt df
        = int (length (filter (\<lambda>r. \<not> gt64 (Profit r) (Val (Fin 0))) (bottom_25 df)))"
    by (simp add: loss_cnt_def profitable_cnt_def length_filter_not)
  also have "\<dots> = int (length (filter (\<lambda>r. le64 (Profit r) (Val (Fin 0)) \<or> Profit r = Val NaN)
                              (bottom_25 df)))"
    by (simp only: not_gt64_zero(1))
  also have "\<dots> = int (length (filter (\<lambda>r. le64 (Profit r) (Val (Fin 0))) (bottom_25 df)))
         + int (length (filter (\<lambda>r. Profit r = Val NaN) (bottom_25 df)))"
    using length_filter_disj
      [of "bottom_25 df" "\<lambda>r. le64 (Profit r) (Val (Fin 0))" "\<lambda>r. Profit r = Val NaN"]
      not_gt64_zero(2)
    by simp
  finally show ?thesis by (simp add: loss_cnt_def profitable_cnt_def)
qed

theorem profitable_plus_loss_is_subset_size_witness:
  "map Profit (bottom_25 sample_table) = [Val (Fin 0), Val (Fin 3)]
   \<and> profitable_cnt sample_table = 1 \<and> loss_cnt sample_table = 1
   \<and> length (filter (\<lambda>r. le64 (Profit r) (Val (Fin 0))) (bottom_25 sample_table)) = 1
   \<and> length (filter (\<lambda>r. Profit r = Val NaN) (bottom_25 sample_table)) = 0"
proof -
  have p: "map Profit (bottom_25 sample_table) = [Val (Fin 0), Val (Fin 3)]"
    by code_simp
  have c: "profitable_cnt sample_table = 1"
    by code_simp
  have l: "length (filter (\<lambda>r. le64 (Profit r) (Val (Fin 0))) (bottom_25 sample_table)) = 1"
    by code_simp
  have n: "length (filter (\<lambda>r. Profit r = Val NaN) (bottom_25 sample_table)) = 0"
    by code_simp
  from profitable_plus_loss_is_subset_size [of sample_table] l n
  have "loss_cnt sample_table = 1" by simp
  with p c l n show ?thesis by (intro conjI)
qed

text \<open>
  The claim as written fails on a table whose first film has no budget: its profit is NaN,
  it is in the bottom quartile, and it is neither profitable nor a row with
  \<open>Profit \<le> 0\<close>. One row is counted as profitable, none has \<open>Profit \<le> 0\<close>, and the
  subset has two rows.
\<close>

theorem profit_nan_row_counterexample:
  "map Profit (bottom_25 no_budget_table) = [Val NaN, Val (Fin 15)]
   \<and> length (bottom_25 no_budget_table) = 2
   \<and> profitable_cnt no_budget_table = 1
   \<and> length (filter (\<lambda>r. le64 (Profit r) (Val (Fin 0))) (bottom_25 no_budget_table)) = 0
   \<and> loss_cnt no_budget_table = 1"
proof -
  have p: "map Profit (bottom_25 no_budget_table) = [Val NaN, Val (Fin 15)]"
    by code_simp
  have s: "length (bottom_25 no_budget_table) = 2"
    using arg_cong [OF p, of length] by simp
  have c: "profitable_cnt no_budget_table = 1"
    by code_simp
  have l: "length (filter (\<lambda>r. le64 (Profit r) (Val (Fin 0))) (bottom_25 no_budget_table)) = 0"
    by code_simp
  have n: "loss_cnt no_budget_table = 1"
    by (simp add: loss_cnt_def c s)
  from p s c l n show ?thesis by (intro conjI)
qed

text \<open>
  C3. When the bottom-quartile subset is empty, both operands of the division in
  \<^verbatim>\<open>pct_profitable\<close> are zero and the division is carried out all the same: the script
  has no guard, numpy warns and the percentage is NaN.
\<close>

theorem pct_profitable_divides_by_zero:
  "bottom_25 df = [] \<Longrightarrow>
     profitable_cnt df = 0 \<and> int (length (bottom_25 df)) = 0
     \<and> np_true_divide (profitable_cnt df) (int (length (bottom_25 df))) = (NaN, [RuntimeWarning])
     \<and> pct_profitable df = (NaN, [RuntimeWarning])"
  by (simp add: pct_profitable_def profitable_cnt_def np_true_divide_def)

theorem pct_profitable_divides_by_zero_witness:
  "bottom_25 [sample_film ''N'' None (Fin 1) NaN] = []
   \<and> pct_profitable [sample_film ''N'' None (Fin 1) NaN] = (NaN, [RuntimeWarning])"
proof -
  have e: "bottom_25 [sample_film ''N'' None (Fin 1) NaN] = []"
    by code_simp
  show ?thesis
    using pct_profitable_divides_by_zero [OF e] e by simp
qed

subsection \<open>Predictions\<close>




subsection \<open>The overview of a table without dates\<close>

text \<open>
  C10, as the script has it. When no row has a date, the minimum and the maximum of the
  date column are \<^verbatim>\<open>NaT\<close>, the calendar date of \<^verbatim>\<open>NaT\<close> is \<^verbatim>\<open>NaT\<close> again, and
  the overview reports the range from \<^verbatim>\<open>NaT\<close> to \<^verbatim>\<open>NaT\<close>; nothing is raised.
\<close>

theorem overview_of_undated_table:
  "(\<forall>r \<in> set df. Release_Date r = None) \<Longrightarrow>
     release_date_range (dataset_overview df) = (None, None)"
  by (simp add: dataset_overview_def ts_min_def ts_max_def ts_date_def map_filter_id_all_None)

theorem overview_of_undated_table_witness:
  "Release_Date undated_film = None
   \<and> release_date_range (dataset_overview [undated_film, undated_film]) = (None, None)"
  using overview_of_undated_table [of "[undated_film, undated_film]"]
  by (simp add: undated_film_def)

text \<open>
  The claim as written fails on the table of one film without a date: the overview is
  computed in full, with the range \<^verbatim>\<open>NaT\<close> to \<^verbatim>\<open>NaT\<close>.
\<close>

theorem overview_of_undated_table_counterexample:
  "Release_Date undated_film = None
   \<and> dataset_overview [undated_film] =
       \<lparr>shape = (1, 5), release_date_range = (None, None),
        avg_budget = Fin 100, avg_worldwide_gross = Fin 250,
        min_worldwide_gross = Fin 250, min_domestic_gross = Fin 50\<rparr>"
  by (simp add: dataset_overview_def undated_film_def ts_min_def ts_max_def ts_date_def
      mean_def fmin_def List.map_filter_simps)

text \<open>
  On such a table the run does stop, but later and elsewhere: the cutoff filter leaves no
  row, and the regression rejects the empty sample.
\<close>

lemma undated_table_regression:
  "(\<forall>r \<in> set df. Release_Date r = None) \<Longrightarrow> regression solve df = Inl ValueError"
proof -
  assume a: "\<forall>r \<in> set df. Release_Date r = None"
  have "data_clean df = []"
    unfolding data_clean_def filter_empty_conv using a by auto
  then show ?thesis by (simp add: regression_def fit_def)
qed

subsection \<open>The Cleaner's currency columns\<close>

text \<open>
  \<^verbatim>\<open>float\<close> on a string of decimal digits: nothing is stripped, there is no sign, no
  point and no exponent, and the value is the number the digits spell, rounded.
\<close>

lemma is_digit_cases:
  "is_digit c \<Longrightarrow>
     c = CHR ''0'' \<or> c = CHR ''1'' \<or> c = CHR ''2'' \<or> c = CHR ''3'' \<or> c = CHR ''4''
     \<or> c = CHR ''5'' \<or> c = CHR ''6'' \<or> c = CHR ''7'' \<or> c = CHR ''8'' \<or> c = CHR ''9''"
  by (auto simp: is_digit_def)

lemma digit_not_space: "is_digit c \<Longrightarrow> \<not> is_space c"
  by (auto dest!: is_digit_cases simp: is_space_def)

lemma digit_lower: "is_digit c \<Longrightarrow> lower c = c"
  by (auto dest!: is_digit_cases simp: lower_def)

lemma digit_not_special:
  "is_digit c \<Longrightarrow> c \<noteq> CHR ''-'' \<and> c \<noteq> CHR ''+'' \<and> c \<noteq> CHR ''.'' \<and> c \<noteq> CHR ''_'' \<and> \<not> is_e c
     \<and> c \<noteq> CHR ''n'' \<and> c \<noteq> CHR ''i''"
  by (auto dest!: is_digit_cases simp: is_e_def)

lemma dropWhile_hd: "xs \<noteq> [] \<Longrightarrow> \<not> P (hd xs) \<Longrightarrow> dropWhile P xs = xs"
  by (cases xs) auto

lemma digits_strip:
  assumes "ds \<noteq> []" and "\<forall>c \<in> set ds. is_digit c"
  shows "strip ds = ds"
proof -
  have "hd ds \<in> set ds" "last ds \<in> set ds" using assms(1) by simp_all
  with assms(2) have h: "\<not> is_space (hd ds)" and l: "\<not> is_space (last ds)"
    by (auto dest: digit_not_space)
  have a: "dropWhile is_space ds = ds" using assms(1) h by (rule dropWhile_hd)
  have "dropWhile is_space (rev ds) = rev ds"
    using assms(1) l by (intro dropWhile_hd) (simp_all add: hd_rev)
  with a show ?thesis by (simp add: strip_def)
qed

lemma digits_digitpart:
  "ds \<noteq> [] \<Longrightarrow> \<forall>c \<in> set ds. is_digit c \<Longrightarrow> digitpart ds"
proof (induction ds rule: digitpart.induct)
  case 1
  then show ?case by simp
next
  case (2 c)
  then show ?case by simp
next
  case (3 c d cs)
  then have "d \<noteq> CHR ''_''" by (auto dest: digit_not_special)
  with 3 show ?case by simp
qed

lemma digits_number:
  assumes "ds \<noteq> []" and "\<forall>c \<in> set ds. is_digit c"
  shows "number ds = Some (of_int (digits_val ds))"
proof -
  have "\<forall>c \<in> set ds. c \<noteq> CHR ''.''" using assms(2) by (auto dest: digit_not_special)
  then have tw: "takeWhile (\<lambda>c. c \<noteq> CHR ''.'') ds = ds"
    and dw: "dropWhile (\<lambda>c. c \<noteq> CHR ''.'') ds = []"
    by simp_all
  show ?thesis
    unfolding number_def Let_def tw dw by (simp add: digits_digitpart [OF assms])
qed

lemma digits_floatnumber:
  assumes "ds \<noteq> []" and "\<forall>c \<in> set ds. is_digit c"
  shows "floatnumber ds = Some (of_int (digits_val ds))"
proof -
  have "\<forall>c \<in> set ds. \<not> is_e c" using assms(2) by (auto dest: digit_not_special)
  then have tw: "takeWhile (\<lambda>c. \<not> is_e c) ds = ds"
    and dw: "dropWhile (\<lambda>c. \<not> is_e c) ds = []"
    by simp_all
  show ?thesis
    unfolding floatnumber_def Let_def tw dw by (simp add: digits_number [OF assms])
qed

lemma digits_py_float:
  assumes "ds \<noteq> []" and "\<forall>c \<in> set ds. is_digit c"
  shows "py_float ds = Inr (round64 (of_int (digits_val ds)))"
proof -
  obtain c cs where ds: "ds = c # cs" using assms(1) by (cases ds) auto
  with assms(2) have c: "is_digit c" by simp
  have sg: "take_sign ds = (1, ds)" using c ds by (auto dest: digit_not_special)
  have lw: "map lower ds = ds" using assms(2) by (simp add: map_idI digit_lower)
  have w: "ds \<noteq> ''nan''" "ds \<noteq> ''inf''" "ds \<noteq> ''infinity''"
    using c ds by (auto dest: digit_not_special)
  show ?thesis
    using w by (simp add: py_float_def digits_strip [OF assms] sg lw digits_floatnumber [OF assms])
qed

text \<open>Currency text is such a string once \<^verbatim>\<open>$\<close> and \<^verbatim>\<open>,\<close> are removed.\<close>

lemma currency_text_stripped:
  assumes "currency_text s"
  shows "filter (\<lambda>ch. ch \<noteq> CHR ''$'' \<and> ch \<noteq> CHR '','') s \<noteq> []"
    and "\<forall>c \<in> set (filter (\<lambda>ch. ch \<noteq> CHR ''$'' \<and> ch \<noteq> CHR '','') s). is_digit c"
    and "digits_val (filter (\<lambda>ch. ch \<noteq> CHR ''$'' \<and> ch \<noteq> CHR '','') s) = digits_val s"
proof -
  from assms obtain d where d: "d \<in> set s" "is_digit d" by (auto simp: currency_text_def list_ex_iff)
  then have "d \<noteq> CHR ''$''" "d \<noteq> CHR '',''" by (auto dest: is_digit_cases)
  with d have "d \<in> set (filter (\<lambda>ch. ch \<noteq> CHR ''$'' \<and> ch \<noteq> CHR '','') s)" by simp
  then show "filter (\<lambda>ch. ch \<noteq> CHR ''$'' \<and> ch \<noteq> CHR '','') s \<noteq> []"
    by (metis empty_iff empty_set)
  show "\<forall>c \<in> set (filter (\<lambda>ch. ch \<noteq> CHR ''$'' \<and> ch \<noteq> CHR '','') s). is_digit c"
    using assms by (auto simp: currency_text_def list_all_iff)
  have "filter is_digit (filter (\<lambda>ch. ch \<noteq> CHR ''$'' \<and> ch \<noteq> CHR '','') s) = filter is_digit s"
    unfolding filter_filter by (rule filter_cong) (auto dest: is_digit_cases)
  then show "digits_val (filter (\<lambda>ch. ch \<noteq> CHR ''$'' \<and> ch \<noteq> CHR '','') s) = digits_val s"
    by (simp add: digits_val_def)
qed

lemma currency_text_clean:
  assumes "currency_text s"
  shows "clean_currency (Txt s) = Inr (round64 (of_int (digits_val s)))"
  using digits_py_float [OF currency_text_stripped(1,2) [OF assms]]
  by (simp add: clean_currency_def replace_currency_def astype_float_def
      currency_text_stripped(3) [OF assms])

lemma digit_val_nonneg: "is_digit c \<Longrightarrow> 0 \<le> digit_val c"
  by (auto dest!: is_digit_cases simp: digit_val_def)

lemma foldl_digits_nonneg:
  "\<forall>c \<in> set cs. is_digit c \<Longrightarrow> 0 \<le> a \<Longrightarrow> 0 \<le> foldl (\<lambda>a c. 10 * a + digit_val c) a cs"
proof (induction cs arbitrary: a)
  case Nil
  then show ?case by simp
next
  case (Cons c cs)
  then have "0 \<le> 10 * a + digit_val c" using digit_val_nonneg [of c] by simp
  with Cons show ?case by simp
qed

lemma digits_val_nonneg: "0 \<le> digits_val s"
  unfolding digits_val_def by (rule foldl_digits_nonneg) simp_all

lemma clean_currency_field:
  assumes "clean_currency c = Inr x"
  shows "currency_field c x"
proof (cases c)
  case (Txt s)
  show ?thesis
  proof (cases "currency_text s")
    case True
    from assms currency_text_clean [OF True] Txt
    have x: "x = round64 (of_int (digits_val s))" by simp
    have n: "nonneg64 x"
      unfolding x using digits_val_nonneg [of s] by (intro round64_nonneg) simp
    have e: "x = Val (Fin (of_int (digits_val s)))" if "digits_val s < 2 ^ 53"
      unfolding x using that digits_val_nonneg [of s] by (intro round64_of_int) simp
    from assms Txt True x n e show ?thesis by (simp add: currency_field_def)
  next
    case False
    with assms Txt show ?thesis by (simp add: currency_field_def)
  qed
next
  case (Num y)
  with assms show ?thesis
    by (simp add: currency_field_def clean_currency_def replace_currency_def astype_float_def)
qed

text \<open>The Cleaner completes exactly when every currency cell converts.\<close>

lemma traverse_succeeds_iff:
  "(\<exists>ys. traverse f xs = Inr ys) \<longleftrightarrow> (\<forall>x \<in> set xs. \<exists>y. f x = Inr y)"
proof (induction xs)
  case Nil
  show ?case by simp
next
  case (Cons x xs)
  show ?case
  proof (cases "f x")
    case (Inl e)
    then show ?thesis by auto
  next
    case (Inr y)
    with Cons show ?thesis by (cases "traverse f xs") auto
  qed
qed

lemma cleaner_succeeds_iff:
  "(\<exists>rows. cleaner parse raw = Inr rows) \<longleftrightarrow>
     (\<forall>r \<in> set raw. (\<exists>x. clean_currency (raw_USD_Production_Budget r) = Inr x)
                   \<and> (\<exists>x. clean_currency (raw_USD_Worldwide_Gross r) = Inr x)
                   \<and> (\<exists>x. clean_currency (raw_USD_Domestic_Gross r) = Inr x))"
proof -
  have b: "(\<exists>ys. traverse clean_currency (map raw_USD_Production_Budget raw) = Inr ys)
           \<longleftrightarrow> (\<forall>r \<in> set raw. \<exists>x. clean_currency (raw_USD_Production_Budget r) = Inr x)"
    by (simp add: traverse_succeeds_iff)
  have w: "(\<exists>ys. traverse clean_currency (map raw_USD_Worldwide_Gross raw) = Inr ys)
           \<longleftrightarrow> (\<forall>r \<in> set raw. \<exists>x. clean_currency (raw_USD_Worldwide_Gross r) = Inr x)"
    by (simp add: traverse_succeeds_iff)
  have d: "(\<exists>ys. traverse clean_currency (map raw_USD_Domestic_Gross raw) = Inr ys)
           \<longleftrightarrow> (\<forall>r \<in> set raw. \<exists>x. clean_currency (raw_USD_Domestic_Gross r) = Inr x)"
    by (simp add: traverse_succeeds_iff)
  have "(\<exists>rows. cleaner parse raw = Inr rows) \<longleftrightarrow>
          (\<exists>ys. traverse clean_currency (map raw_USD_Production_Budget raw) = Inr ys)
        \<and> (\<exists>ys. traverse clean_currency (map raw_USD_Worldwide_Gross raw) = Inr ys)
        \<and> (\<exists>ys. traverse clean_currency (map raw_USD_Domestic_Gross raw) = Inr ys)"
    by (auto simp: cleaner_def to_datetime_coerce split: sum.splits)
  then show ?thesis unfolding b w d by blast
qed

text \<open>
  C2, as the script has it. In a table that passed the Cleaner, each of the three currency
  fields of every row is what \<^verbatim>\<open>float\<close> makes of the cell once every \<^verbatim>\<open>$\<close> and
  \<^verbatim>\<open>,\<close> is removed (a cell that is a float already is kept as it is). A cell of
  currency text gives the number its digits spell, rounded to binary64: a number that is
  not negative, the number itself when it is below \<open>2^53\<close>, the infinity when it is too
  large for binary64. The Cleaner checks nothing else: it completes exactly when each
  currency cell of each row converts.
\<close>

theorem cleaner_currency_fields:
  "(cleaner parse raw = Inr rows \<longrightarrow>
      length rows = length raw
      \<and> (\<forall>i < length raw.
            currency_field (raw_USD_Production_Budget (raw ! i)) (USD_Production_Budget (rows ! i))
          \<and> currency_field (raw_USD_Worldwide_Gross (raw ! i)) (USD_Worldwide_Gross (rows ! i))
          \<and> currency_field (raw_USD_Domestic_Gross (raw ! i)) (USD_Domestic_Gross (rows ! i))))
   \<and> ((\<exists>rows'. cleaner parse raw = Inr rows') \<longleftrightarrow>
        (\<forall>r \<in> set raw. (\<exists>x. clean_currency (raw_USD_Production_Budget r) = Inr x)
                      \<and> (\<exists>x. clean_currency (raw_USD_Worldwide_Gross r) = Inr x)
                      \<and> (\<exists>x. clean_currency (raw_USD_Domestic_Gross r) = Inr x)))"
proof (intro conjI impI)
  assume c: "cleaner parse raw = Inr rows"
  then obtain b w d t where
    b: "traverse clean_currency (map raw_USD_Production_Budget raw) = Inr b" and
    w: "traverse clean_currency (map raw_USD_Worldwide_Gross raw) = Inr w" and
    d: "traverse clean_currency (map raw_USD_Domestic_Gross raw) = Inr d" and
    rows: "rows = map (\<lambda>i. \<lparr>Movie_Title = raw_Movie_Title (raw ! i), Release_Date = t ! i,
                          USD_Production_Budget = b ! i, USD_Worldwide_Gross = w ! i,
                          USD_Domestic_Gross = d ! i\<rparr>) [0..<length raw]"
    by (auto simp: cleaner_def split: sum.splits)
  show "length rows = length raw" by (simp add: rows)
  show "\<forall>i < length raw.
            currency_field (raw_USD_Production_Budget (raw ! i)) (USD_Production_Budget (rows ! i))
          \<and> currency_field (raw_USD_Worldwide_Gross (raw ! i)) (USD_Worldwide_Gross (rows ! i))
          \<and> currency_field (raw_USD_Domestic_Gross (raw ! i)) (USD_Domestic_Gross (rows ! i))"
  proof (intro allI impI)
    fix i assume i: "i < length raw"
    have "clean_currency (raw_USD_Production_Budget (raw ! i)) = Inr (b ! i)"
      using traverse_InrD(2) [OF b, of i] i by simp
    moreover have "clean_currency (raw_USD_Worldwide_Gross (raw ! i)) = Inr (w ! i)"
      using traverse_InrD(2) [OF w, of i] i by simp
    moreover have "clean_currency (raw_USD_Domestic_Gross (raw ! i)) = Inr (d ! i)"
      using traverse_InrD(2) [OF d, of i] i by simp
    ultimately show
        "currency_field (raw_USD_Production_Budget (raw ! i)) (USD_Production_Budget (rows ! i))
          \<and> currency_field (raw_USD_Worldwide_Gross (raw ! i)) (USD_Worldwide_Gross (rows ! i))
          \<and> currency_field (raw_USD_Domestic_Gross (raw ! i)) (USD_Domestic_Gross (rows ! i))"
      using i by (simp add: rows clean_currency_field)
  qed
next
  show "(\<exists>rows'. cleaner parse raw = Inr rows') \<longleftrightarrow>
        (\<forall>r \<in> set raw. (\<exists>x. clean_currency (raw_USD_Production_Budget r) = Inr x)
                      \<and> (\<exists>x. clean_currency (raw_USD_Worldwide_Gross r) = Inr x)
                      \<and> (\<exists>x. clean_currency (raw_USD_Domestic_Gross r) = Inr x))"
    by (rule cleaner_succeeds_iff)
qed

theorem cleaner_currency_fields_witness:
  "cleaner sample_parse [raw_undated] = Inr [undated_cleaned]
   \<and> raw_USD_Production_Budget raw_undated = Txt ''$100''
   \<and> currency_text ''$100''
   \<and> currency_field (Txt ''$100'') (USD_Production_Budget undated_cleaned)
   \<and> USD_Production_Budget undated_cleaned = Val (Fin 100)"
proof -
  have c: "cleaner sample_parse [raw_undated] = Inr [undated_cleaned]"
    by code_simp
  have t: "currency_text ''$100''"
    by (simp add: currency_text_def is_digit_def)
  from cleaner_currency_fields [of sample_parse "[raw_undated]" "[undated_cleaned]"] c
  have "\<forall>i < length [raw_undated].
          currency_field (raw_USD_Production_Budget ([raw_undated] ! i))
            (USD_Production_Budget ([undated_cleaned] ! i))"
    by blast
  then have f: "currency_field (raw_USD_Production_Budget raw_undated)
                  (USD_Production_Budget undated_cleaned)"
    by simp
  have r: "raw_USD_Production_Budget raw_undated = Txt ''$100''"
    by (simp add: raw_undated_def)
  have v: "USD_Production_Budget undated_cleaned = Val (Fin 100)"
    by (simp add: undated_cleaned_def)
  from c r t f [unfolded r] v show ?thesis by (intro conjI)
qed

text \<open>
  The claim as written fails on a table of one film whose budget text is \<^verbatim>\<open>-$5\<close> and
  whose worldwide gross cell is empty (NaN from the loader): the Cleaner accepts the row,
  with a negative budget and a NaN gross.
\<close>

theorem negative_and_nan_pass_the_cleaner_counterexample:
  "cleaner sample_parse [raw_refund] = Inr [refund_cleaned]
   \<and> USD_Production_Budget refund_cleaned = Val (Fin (- 5))
   \<and> lt64 (USD_Production_Budget refund_cleaned) (Val (Fin 0))
   \<and> USD_Worldwide_Gross refund_cleaned = Val NaN"
proof -
  have c: "cleaner sample_parse [raw_refund] = Inr [refund_cleaned]"
    by code_simp
  have b: "USD_Production_Budget refund_cleaned = Val (Fin (- 5))"
    "USD_Worldwide_Gross refund_cleaned = Val NaN"
    by (simp_all add: refund_cleaned_def)
  have l: "lt64 (USD_Production_Budget refund_cleaned) (Val (Fin 0))"
    by (simp add: b lt64_def)
  from c b l show ?thesis by (intro conjI)
qed

subsection \<open>The bottom quartile: the 25th percentile and the subset\<close>

lemma dropna_mem: "v \<in> set (dropna col) \<longleftrightarrow> Fin v \<in> set col"
proof (induction col)
  case Nil
  show ?case by simp
next
  case (Cons x xs)
  then show ?case by (cases x) auto
qed

text \<open>
  The two branches of numpy's \<^verbatim>\<open>_lerp\<close> are the same number in exact arithmetic,
  and it lies between the two neighbours.
\<close>

lemma lerp_eq: "lerp a b t = a + (b - a) * t"
  by (simp add: lerp_def algebra_simps)

lemma lerp_between:
  assumes "a \<le> b" "0 \<le> t" "t \<le> 1"
  shows "a \<le> lerp a b t" and "lerp a b t \<le> b"
proof -
  have d: "0 \<le> b - a" using assms(1) by simp
  have "0 \<le> (b - a) * t" using d assms(2) by simp
  then show "a \<le> lerp a b t" by (simp add: lerp_eq)
  have "(b - a) * t \<le> (b - a) * 1" using d assms(3) by (rule mult_left_mono [rotated])
  then show "lerp a b t \<le> b" by (simp add: lerp_eq)
qed

lemma sort_eq_Nil: "sort xs = [] \<longleftrightarrow> xs = []"
  by (metis set_sort set_empty)

lemma nat_floor_Suc: "(0::int) \<le> k \<Longrightarrow> nat (k + 1) = nat k + 1"
  by arith

lemma quantile_unfold:
  assumes "dropna col \<noteq> []"
  shows "quantile p col =
     (let s = sort (dropna col); h = (of_nat (length s) - 1) * p
      in if h \<ge> of_nat (length s) - 1
         then Fin (lerp (s ! (length s - 1)) (s ! (length s - 1)) (h - of_int \<lfloor>h\<rfloor>))
         else Fin (lerp (s ! nat \<lfloor>h\<rfloor>) (s ! (nat \<lfloor>h\<rfloor> + 1)) (h - of_int \<lfloor>h\<rfloor>)))"
  using assms by (simp add: quantile_def Let_def sort_eq_Nil)

text \<open>
  The quantile of the script is the closest-rank interpolation of the specification,
  for every fraction \<open>p\<close> between 0 and 1.
\<close>

lemma quantile_closest_rank:
  assumes ne: "dropna col \<noteq> []" and p: "0 \<le> p" "p \<le> 1"
  shows "quantile p col = Fin (closest_rank_interpolation p (dropna col))"
proof -
  define s where "s = sort (dropna col)"
  define n where "n = length s"
  define h where "h = (of_nat n - 1) * p"
  have n: "0 < n" using ne by (simp add: n_def s_def)
  then have n1: "(0::rat) \<le> of_nat n - 1" by simp
  have h0: "0 \<le> h" unfolding h_def using n1 p(1) by simp
  have h1: "h \<le> of_nat n - 1"
    unfolding h_def using mult_left_mono [OF p(2) n1] by simp
  have spec: "closest_rank_interpolation p (dropna col)
              = s ! nat \<lfloor>h\<rfloor> + (h - of_int \<lfloor>h\<rfloor>) * (s ! nat \<lceil>h\<rceil> - s ! nat \<lfloor>h\<rfloor>)"
    by (simp add: closest_rank_interpolation_def Let_def s_def n_def h_def)
  have code: "quantile p col =
      (if h \<ge> of_nat n - 1
       then Fin (lerp (s ! (n - 1)) (s ! (n - 1)) (h - of_int \<lfloor>h\<rfloor>))
       else Fin (lerp (s ! nat \<lfloor>h\<rfloor>) (s ! (nat \<lfloor>h\<rfloor> + 1)) (h - of_int \<lfloor>h\<rfloor>)))"
    unfolding quantile_unfold [OF ne] Let_def s_def n_def h_def ..
  show ?thesis
  proof (cases "h \<ge> of_nat n - 1")
    case True
    with h1 have "h = of_nat n - 1" by simp
    also have "\<dots> = of_int (int (n - 1))" using n by (simp add: of_nat_diff)
    finally have hh: "h = of_int (int (n - 1))" .
    have "\<lfloor>h\<rfloor> = int (n - 1)" "\<lceil>h\<rceil> = int (n - 1)" unfolding hh by simp_all
    with True show ?thesis by (simp add: code spec lerp_eq)
  next
    case False
    show ?thesis
    proof (cases "h = of_int \<lfloor>h\<rfloor>")
      case True
      then have "h - of_int \<lfloor>h\<rfloor> = 0" by simp
      with False show ?thesis by (simp add: code spec lerp_eq)
    next
      case nonint: False
      have "0 \<le> \<lfloor>h\<rfloor>" using h0 by simp
      moreover have "\<lceil>h\<rceil> = \<lfloor>h\<rfloor> + 1" using nonint by (simp add: ceiling_altdef)
      ultimately have "nat \<lceil>h\<rceil> = nat \<lfloor>h\<rfloor> + 1" by (simp only: nat_floor_Suc)
      with False show ?thesis by (simp add: code spec lerp_eq algebra_simps)
    qed
  qed
qed

text \<open>The interpolated value lies between two values of the column.\<close>

lemma closest_rank_between:
  assumes ne: "vs \<noteq> []" and p: "0 \<le> p" "p \<le> 1"
  shows "\<exists>lo \<in> set vs. \<exists>hi \<in> set vs.
           lo \<le> closest_rank_interpolation p vs \<and> closest_rank_interpolation p vs \<le> hi"
proof -
  define s where "s = sort vs"
  define n where "n = length s"
  define h where "h = (of_nat n - 1) * p"
  have n: "0 < n" using ne by (simp add: n_def s_def)
  then have n1: "(0::rat) \<le> of_nat n - 1" by simp
  have h0: "0 \<le> h" unfolding h_def using n1 p(1) by simp
  have h1: "h \<le> of_nat n - 1"
    unfolding h_def using mult_left_mono [OF p(2) n1] by simp
  have "h \<le> of_int (int (n - 1))" using h1 n by (simp add: of_nat_diff)
  then have c: "\<lceil>h\<rceil> \<le> int (n - 1)" by (simp add: ceiling_le_iff)
  have f0: "0 \<le> \<lfloor>h\<rfloor>" using h0 by simp
  have fc: "\<lfloor>h\<rfloor> \<le> \<lceil>h\<rceil>" by (rule floor_le_ceiling)
  have lo: "nat \<lfloor>h\<rfloor> \<le> nat \<lceil>h\<rceil>" using fc by (rule nat_mono)
  have hi: "nat \<lceil>h\<rceil> < n" using c n by simp
  have srt: "sorted s" by (simp add: s_def)
  have ab: "s ! nat \<lfloor>h\<rfloor> \<le> s ! nat \<lceil>h\<rceil>"
    using sorted_nth_mono [OF srt lo] hi by (simp add: n_def)
  have g0: "0 \<le> h - of_int \<lfloor>h\<rfloor>" by simp
  have g1: "h - of_int \<lfloor>h\<rfloor> \<le> 1" by linarith
  have spec: "closest_rank_interpolation p vs
              = lerp (s ! nat \<lfloor>h\<rfloor>) (s ! nat \<lceil>h\<rceil>) (h - of_int \<lfloor>h\<rfloor>)"
    by (simp add: closest_rank_interpolation_def Let_def s_def n_def h_def lerp_eq)
  have "s ! nat \<lfloor>h\<rfloor> \<in> set s" "s ! nat \<lceil>h\<rceil> \<in> set s"
    using lo hi by (simp_all add: n_def)
  then have "s ! nat \<lfloor>h\<rfloor> \<in> set vs" "s ! nat \<lceil>h\<rceil> \<in> set vs" by (simp_all add: s_def)
  with lerp_between [OF ab g0 g1] spec show ?thesis by auto
qed

lemma q1_Fin:
  "dropna (map USD_Worldwide_Gross df) \<noteq> [] \<Longrightarrow>
     q1 df = Fin (closest_rank_interpolation (1 / 4) (dropna (map USD_Worldwide_Gross df)))"
  by (simp add: q1_def quantile_closest_rank)

lemma q1_NaN: "dropna (map USD_Worldwide_Gross df) = [] \<Longrightarrow> q1 df = NaN"
  by (simp add: q1_def quantile_def)

text \<open>
  The smallest gross is at most \<open>q1\<close>, so the bottom-quartile subset is empty only when
  the table has no row with a worldwide gross that is not NaN (in particular when the table
  is empty).
\<close>

lemma bottom_25_empty_iff:
  "bottom_25 df = [] \<longleftrightarrow> dropna (map USD_Worldwide_Gross df) = []"
proof
  assume e: "bottom_25 df = []"
  show "dropna (map USD_Worldwide_Gross df) = []"
  proof (rule ccontr)
    assume ne: "dropna (map USD_Worldwide_Gross df) \<noteq> []"
    from closest_rank_between [OF ne, of "1 / 4"] obtain lo
      where lo: "lo \<in> set (dropna (map USD_Worldwide_Gross df))"
        and le: "lo \<le> closest_rank_interpolation (1 / 4) (dropna (map USD_Worldwide_Gross df))"
      by auto
    from lo obtain r where r: "r \<in> set df" "USD_Worldwide_Gross r = Fin lo"
      by (auto simp: dropna_mem)
    with le have "r \<in> set (bottom_25 df)"
      by (simp add: bottom_25_def q1_Fin [OF ne])
    with e show False by simp
  qed
next
  assume "dropna (map USD_Worldwide_Gross df) = []"
  then show "bottom_25 df = []"
    by (simp add: bottom_25_def q1_NaN)
qed

text \<open>
  C4. The bottom-quartile subset is the rows of the table, in table order, whose worldwide
  gross is at most \<open>q1\<close>; a row whose gross equals \<open>q1\<close> is in it, so no gross of the
  subset exceeds \<open>q1\<close>. Where the column has a value that is not NaN, \<open>q1\<close> is the 25th
  percentile of these values by linear interpolation between closest ranks; where it has
  none, \<open>q1\<close> is NaN.
\<close>

theorem bottom_quartile_is_rows_up_to_q1:
  "bottom_25 df = filter (\<lambda>r. fle (USD_Worldwide_Gross r) (q1 df)) df
   \<and> (\<forall>r \<in> set (bottom_25 df). fle (USD_Worldwide_Gross r) (q1 df))
   \<and> (\<forall>r \<in> set df. feq (USD_Worldwide_Gross r) (q1 df) \<longrightarrow> r \<in> set (bottom_25 df))
   \<and> (dropna (map USD_Worldwide_Gross df) \<noteq> [] \<longrightarrow>
        q1 df = Fin (closest_rank_interpolation (1 / 4) (dropna (map USD_Worldwide_Gross df))))
   \<and> (dropna (map USD_Worldwide_Gross df) = [] \<longrightarrow> q1 df = NaN)"
proof -
  have fe: "fle x y" if "feq x y" for x y
    using that by (cases x; cases y) simp_all
  have a: "bottom_25 df = filter (\<lambda>r. fle (USD_Worldwide_Gross r) (q1 df)) df"
    by (simp only: bottom_25_def)
  have b: "\<forall>r \<in> set (bottom_25 df). fle (USD_Worldwide_Gross r) (q1 df)"
    unfolding a by simp
  have c: "\<forall>r \<in> set df. feq (USD_Worldwide_Gross r) (q1 df) \<longrightarrow> r \<in> set (bottom_25 df)"
    unfolding a using fe by simp
  have d: "dropna (map USD_Worldwide_Gross df) \<noteq> [] \<longrightarrow>
        q1 df = Fin (closest_rank_interpolation (1 / 4) (dropna (map USD_Worldwide_Gross df)))"
    using q1_Fin by blast
  have e: "dropna (map USD_Worldwide_Gross df) = [] \<longrightarrow> q1 df = NaN"
    using q1_NaN by blast
  from a b c d e show ?thesis by (intro conjI)
qed

theorem bottom_quartile_is_rows_up_to_q1_witness:
  "q1 sample_table = Fin (37 / 2)
   \<and> closest_rank_interpolation (1 / 4) [30, 20, 90, 10, 90, 18] = 37 / 2
   \<and> map Movie_Title (bottom_25 sample_table) = [''D'', ''F'']
   \<and> q1 (take 5 sample_table) = Fin 20
   \<and> feq (USD_Worldwide_Gross (sample_table ! 1)) (q1 (take 5 sample_table))
   \<and> map Movie_Title (bottom_25 (take 5 sample_table)) = [''B'', ''D'']
   \<and> q1 [] = NaN"
proof -
  have a: "q1 sample_table = Fin (37 / 2)"
    by code_simp
  have b: "map Movie_Title (bottom_25 sample_table) = [''D'', ''F'']"
    by code_simp
  have c: "q1 (take 5 sample_table) = Fin 20"
    by code_simp
  have d: "map Movie_Title (bottom_25 (take 5 sample_table)) = [''B'', ''D'']"
    by code_simp
  have e: "dropna (map USD_Worldwide_Gross sample_table) = [30, 20, 90, 10, 90, 18]"
    by (simp add: sample_table_def sample_film_def)
  have f: "USD_Worldwide_Gross (sample_table ! 1) = Fin 20"
    by (simp add: sample_table_def sample_film_def)
  from bottom_quartile_is_rows_up_to_q1 [of sample_table]
  have "dropna (map USD_Worldwide_Gross sample_table) \<noteq> [] \<longrightarrow>
          q1 sample_table
          = Fin (closest_rank_interpolation (1 / 4) (dropna (map USD_Worldwide_Gross sample_table)))"
    by blast
  then have g: "closest_rank_interpolation (1 / 4) [30, 20, 90, 10, 90, 18] = 37 / 2"
    unfolding e a by simp
  have h: "feq (USD_Worldwide_Gross (sample_table ! 1)) (q1 (take 5 sample_table))"
    unfolding c f by simp
  from bottom_quartile_is_rows_up_to_q1 [of "[]"]
  have n: "q1 [] = NaN" by simp
  from a g b c h d n show ?thesis by (intro conjI)
qed

subsection \<open>Extremes\<close>

text \<open>
  The scan keeps its invariant at every position: a NaN changes nothing, a value that
  does not beat the candidate leaves the candidate, a strictly better value replaces it.
\<close>

lemma dropna_append: "dropna (xs @ ys) = dropna xs @ dropna ys"
proof (induction xs)
  case Nil
  show ?case by simp
next
  case (Cons x xs)
  then show ?case by (cases x) simp_all
qed

lemma first_max_at_snoc_NaN:
  "first_max_at ps j v \<Longrightarrow> first_max_at (ps @ [NaN]) j v"
  by (auto simp: first_max_at_def nth_append dropna_append)

lemma first_max_at_snoc_le:
  "first_max_at ps j v \<Longrightarrow> a \<le> v \<Longrightarrow> first_max_at (ps @ [Fin a]) j v"
  by (auto simp: first_max_at_def nth_append dropna_append)

lemma first_max_at_snoc_gt:
  assumes "first_max_at ps j v" and "v < a"
  shows "first_max_at (ps @ [Fin a]) (length ps) a"
proof -
  from assms(1) have "list_all (\<lambda>u. u \<le> v) (dropna ps)" by (simp add: first_max_at_def)
  with assms(2) have "list_all (\<lambda>u. u < a) (dropna ps)"
    by (auto simp: list_all_iff)
  then show ?thesis
    by (auto simp: first_max_at_def dropna_append list_all_iff intro: less_imp_le)
qed

lemma first_max_at_snoc_first:
  "dropna ps = [] \<Longrightarrow> first_max_at (ps @ [Fin a]) (length ps) a"
  by (simp add: first_max_at_def dropna_append)

lemma argmax_loop_inv:
  "argmax_inv ps best \<Longrightarrow> argmax_inv (ps @ xs) (argmax_loop xs (length ps) best)"
proof (induction xs arbitrary: ps best)
  case Nil
  then show ?case by simp
next
  case (Cons x xs)
  let ?best' = "case x of NaN \<Rightarrow> best
        | Fin a \<Rightarrow> (case best of None \<Rightarrow> Some (length ps, a)
             | Some (j, v) \<Rightarrow> if a > v then Some (length ps, a) else Some (j, v))"
  have step: "argmax_inv (ps @ [x]) ?best'"
  proof (cases x)
    case NaN
    with Cons.prems show ?thesis
      by (auto simp: argmax_inv_def dropna_append first_max_at_snoc_NaN split: option.splits)
  next
    case (Fin a)
    show ?thesis
    proof (cases best)
      case None
      with Fin Cons.prems show ?thesis
        by (simp add: argmax_inv_def first_max_at_snoc_first)
    next
      case (Some jv)
      obtain j v where jv: "jv = (j, v)" by (cases jv)
      with Some Cons.prems have m: "first_max_at ps j v" by (simp add: argmax_inv_def)
      show ?thesis
      proof (cases "a > v")
        case True
        with m Fin Some jv show ?thesis
          by (simp add: argmax_inv_def first_max_at_snoc_gt)
      next
        case False
        with m Fin Some jv show ?thesis
          by (simp add: argmax_inv_def first_max_at_snoc_le)
      qed
    qed
  qed
  from Cons.IH [OF step] show ?case by simp
qed

lemma idxmax_first_max:
  "idxmax col = Inr i \<Longrightarrow> \<exists>v. first_max_at col i v"
  using argmax_loop_inv [of "[]" None col]
  by (auto simp: idxmax_def argmax_inv_def split: if_splits option.splits)

lemma idxmax_defined:
  "dropna col \<noteq> [] \<Longrightarrow> \<exists>i. idxmax col = Inr i"
  using argmax_loop_inv [of "[]" None col]
  by (auto simp: idxmax_def argmax_inv_def split: if_splits option.splits)

text \<open>The position and the value of a first maximum are determined by the column.\<close>

lemma first_max_at_unique:
  assumes "first_max_at col i v" and "first_max_at col i' v'"
  shows "i = i' \<and> v = v'"
proof -
  from assms have iv: "i < length col" "col ! i = Fin v" and iv': "i' < length col" "col ! i' = Fin v'"
    by (simp_all add: first_max_at_def)
  from nth_mem [OF iv(1)] nth_mem [OF iv'(1)] iv(2) iv'(2)
  have "v \<in> set (dropna col)" "v' \<in> set (dropna col)"
    by (simp_all add: dropna_mem)
  with assms have "v \<le> v'" "v' \<le> v" by (auto simp: first_max_at_def list_all_iff)
  then have v: "v = v'" by simp
  have "\<not> i < i'"
  proof
    assume "i < i'"
    with iv iv' have "Fin v \<in> set (take i' col)"
      by (metis in_set_conv_nth length_take min.absorb2 less_imp_le nth_take)
    then have "v \<in> set (dropna (take i' col))" by (simp add: dropna_mem)
    with assms(2) have "v < v'" by (auto simp: first_max_at_def list_all_iff)
    with v show False by simp
  qed
  moreover have "\<not> i' < i"
  proof
    assume "i' < i"
    with iv iv' have "Fin v' \<in> set (take i col)"
      by (metis in_set_conv_nth length_take min.absorb2 less_imp_le nth_take)
    then have "v' \<in> set (dropna (take i col))" by (simp add: dropna_mem)
    with assms(1) have "v' < v" by (auto simp: first_max_at_def list_all_iff)
    with v show False by simp
  qed
  ultimately show ?thesis using v by simp
qed

text \<open>The same for the minimum.\<close>

lemma first_min_at_snoc_NaN:
  "first_min_at ps j v \<Longrightarrow> first_min_at (ps @ [NaN]) j v"
  by (auto simp: first_min_at_def nth_append dropna_append)

lemma first_min_at_snoc_ge:
  "first_min_at ps j v \<Longrightarrow> v \<le> a \<Longrightarrow> first_min_at (ps @ [Fin a]) j v"
  by (auto simp: first_min_at_def nth_append dropna_append)

lemma first_min_at_snoc_lt:
  assumes "first_min_at ps j v" and "a < v"
  shows "first_min_at (ps @ [Fin a]) (length ps) a"
proof -
  from assms(1) have "list_all (\<lambda>u. v \<le> u) (dropna ps)" by (simp add: first_min_at_def)
  with assms(2) have "list_all (\<lambda>u. a < u) (dropna ps)"
    by (auto simp: list_all_iff)
  then show ?thesis
    by (auto simp: first_min_at_def dropna_append list_all_iff intro: less_imp_le)
qed

lemma first_min_at_snoc_first:
  "dropna ps = [] \<Longrightarrow> first_min_at (ps @ [Fin a]) (length ps) a"
  by (simp add: first_min_at_def dropna_append)

lemma argmin_loop_inv:
  "argmin_inv ps best \<Longrightarrow> argmin_inv (ps @ xs) (argmin_loop xs (length ps) best)"
proof (induction xs arbitrary: ps best)
  case Nil
  then show ?case by simp
next
  case (Cons x xs)
  let ?best' = "case x of NaN \<Rightarrow> best
        | Fin a \<Rightarrow> (case best of None \<Rightarrow> Some (length ps, a)
             | Some (j, v) \<Rightarrow> if a < v then Some (length ps, a) else Some (j, v))"
  have step: "argmin_inv (ps @ [x]) ?best'"
  proof (cases x)
    case NaN
    with Cons.prems show ?thesis
      by (auto simp: argmin_inv_def dropna_append first_min_at_snoc_NaN split: option.splits)
  next
    case (Fin a)
    show ?thesis
    proof (cases best)
      case None
      with Fin Cons.prems show ?thesis
        by (simp add: argmin_inv_def first_min_at_snoc_first)
    next
      case (Some jv)
      obtain j v where jv: "jv = (j, v)" by (cases jv)
      with Some Cons.prems have m: "first_min_at ps j v" by (simp add: argmin_inv_def)
      show ?thesis
      proof (cases "a < v")
        case True
        with m Fin Some jv show ?thesis
          by (simp add: argmin_inv_def first_min_at_snoc_lt)
      next
        case False
        with m Fin Some jv show ?thesis
          by (simp add: argmin_inv_def first_min_at_snoc_ge)
      qed
    qed
  qed
  from Cons.IH [OF step] show ?case by simp
qed

lemma idxmin_first_min:
  "idxmin col = Inr i \<Longrightarrow> \<exists>v. first_min_at col i v"
  using argmin_loop_inv [of "[]" None col]
  by (auto simp: idxmin_def argmin_inv_def split: if_splits option.splits)

lemma idxmin_defined:
  "dropna col \<noteq> [] \<Longrightarrow> \<exists>i. idxmin col = Inr i"
  using argmin_loop_inv [of "[]" None col]
  by (auto simp: idxmin_def argmin_inv_def split: if_splits option.splits)


lemma loc_in_range: "i < length df \<Longrightarrow> loc df i = Inr (df ! i)"
  by (simp add: loc_def)

text \<open>
  C7. Each of the three extreme rows, when the script finds one, is the row at the first
  position that holds the extreme value of its column: the maximum production budget, the
  maximum worldwide gross, the minimum production budget, with NaN skipped; among rows that
  tie on the extreme value it is the first in table order. A row is found as soon as the
  column has a value that is not NaN.
\<close>

theorem extremes_are_first_occurrences:
  "(max_budget_row df = Inr r \<longrightarrow>
      (\<exists>i v. first_max_at (map USD_Production_Budget df) i v \<and> r = df ! i))
   \<and> (max_gross_row df = Inr r \<longrightarrow>
      (\<exists>i v. first_max_at (map USD_Worldwide_Gross df) i v \<and> r = df ! i))
   \<and> (min_budget_row df = Inr r \<longrightarrow>
      (\<exists>i v. first_min_at (map USD_Production_Budget df) i v \<and> r = df ! i))
   \<and> (dropna (map USD_Production_Budget df) \<noteq> [] \<longrightarrow>
      (\<exists>r. max_budget_row df = Inr r) \<and> (\<exists>r. min_budget_row df = Inr r))
   \<and> (dropna (map USD_Worldwide_Gross df) \<noteq> [] \<longrightarrow> (\<exists>r. max_gross_row df = Inr r))"
proof -
  have mx: "\<exists>i v. first_max_at (map f df) i v \<and> r = df ! i"
    if "(case idxmax (map f df) of Inl e \<Rightarrow> Inl e | Inr i \<Rightarrow> loc df i) = Inr r"
    for f :: "pyfloat film_p \<Rightarrow> pyfloat"
  proof -
    from that obtain i where i: "idxmax (map f df) = Inr i" and l: "loc df i = Inr r"
      by (auto split: sum.splits)
    from idxmax_first_max [OF i] obtain v where v: "first_max_at (map f df) i v" ..
    then have "i < length df" by (simp add: first_max_at_def)
    with l have "r = df ! i" by (simp add: loc_def)
    with v show ?thesis by blast
  qed
  have mn: "\<exists>i v. first_min_at (map f df) i v \<and> r = df ! i"
    if "(case idxmin (map f df) of Inl e \<Rightarrow> Inl e | Inr i \<Rightarrow> loc df i) = Inr r"
    for f :: "pyfloat film_p \<Rightarrow> pyfloat"
  proof -
    from that obtain i where i: "idxmin (map f df) = Inr i" and l: "loc df i = Inr r"
      by (auto split: sum.splits)
    from idxmin_first_min [OF i] obtain v where v: "first_min_at (map f df) i v" ..
    then have "i < length df" by (simp add: first_min_at_def)
    with l have "r = df ! i" by (simp add: loc_def)
    with v show ?thesis by blast
  qed
  have ex: "\<exists>r. (case idxmax (map f df) of Inl e \<Rightarrow> Inl e | Inr i \<Rightarrow> loc df i) = Inr r"
    if "dropna (map f df) \<noteq> []" for f :: "pyfloat film_p \<Rightarrow> pyfloat"
  proof -
    from idxmax_defined [OF that] obtain i where i: "idxmax (map f df) = Inr i" ..
    from idxmax_first_max [OF i] have "i < length df" by (auto simp: first_max_at_def)
    with i show ?thesis by (simp add: loc_in_range)
  qed
  have en: "\<exists>r. (case idxmin (map f df) of Inl e \<Rightarrow> Inl e | Inr i \<Rightarrow> loc df i) = Inr r"
    if "dropna (map f df) \<noteq> []" for f :: "pyfloat film_p \<Rightarrow> pyfloat"
  proof -
    from idxmin_defined [OF that] obtain i where i: "idxmin (map f df) = Inr i" ..
    from idxmin_first_min [OF i] have "i < length df" by (auto simp: first_min_at_def)
    with i show ?thesis by (simp add: loc_in_range)
  qed
  show ?thesis
    unfolding max_budget_row_def max_gross_row_def min_budget_row_def
    using mx mn ex en by blast
qed

theorem extremes_are_first_occurrences_witness:
  "max_budget_row sample_table = Inr (sample_table ! 1)
   \<and> first_max_at (map USD_Production_Budget sample_table) 1 40
   \<and> max_gross_row sample_table = Inr (sample_table ! 2)
   \<and> first_max_at (map USD_Worldwide_Gross sample_table) 2 90
   \<and> min_budget_row sample_table = Inr (sample_table ! 0)
   \<and> first_min_at (map USD_Production_Budget sample_table) 0 10
   \<and> map USD_Production_Budget sample_table = [Fin 10, Fin 40, Fin 40, Fin 10, Fin 20, Fin 15]
   \<and> map USD_Worldwide_Gross sample_table = [Fin 30, Fin 20, Fin 90, Fin 10, Fin 90, Fin 18]"
proof -
  have a: "max_budget_row sample_table = Inr (sample_table ! 1)"
    by code_simp
  have b: "max_gross_row sample_table = Inr (sample_table ! 2)"
    by code_simp
  have c: "min_budget_row sample_table = Inr (sample_table ! 0)"
    by code_simp
  have d: "first_max_at (map USD_Production_Budget sample_table) 1 40"
    "first_max_at (map USD_Worldwide_Gross sample_table) 2 90"
    "first_min_at (map USD_Production_Budget sample_table) 0 10"
    by code_simp+
  have e: "map USD_Production_Budget sample_table = [Fin 10, Fin 40, Fin 40, Fin 10, Fin 20, Fin 15]"
    "map USD_Worldwide_Gross sample_table = [Fin 30, Fin 20, Fin 90, Fin 10, Fin 90, Fin 18]"
    by (simp_all add: sample_table_def sample_film_def)
  show ?thesis
    using extremes_are_first_occurrences [of sample_table "sample_table ! 1"] a b c d e
    by simp
qed

end
